theory Spec2Isabelle
  imports Complex_Main
begin

text \<open>
  A shallow embedding of the per-user infrastructure of the Telegram tutor bot
  (telegram_bot.py, with ocr_image_path from common.py): the sliding-window rate
  limiter, the retrying download of a Telegram file into a temporary file, the
  OCR cache keyed by the SHA-256 of the downloaded bytes, and the tutor commands
  /learn, /next, /quiz, /answer, /progress and /reset.

  Conventions. Global dictionaries become explicit state that each function takes
  and returns. Python ints are int; time.time() readings and sizes in MB are real
  numbers (floating-point rounding is not modelled). A handler that raises is
  modelled by a result Inl e together with the state as mutated up to the raise.
  Replies are constructors carrying the data a message is formatted from; the
  formatting of the text itself is not modelled. Logging is omitted, and
  save_state, which only reads tutor_state and writes the snapshot file, leaves
  the modelled state as it is.
\<close>

section \<open>Configuration and shared types\<close>

type_synonym user_id = int

text \<open>The Python exceptions that can escape the modelled code. TelegramError stands for
  any telegram.error exception that the download loop does not catch (it catches
  RetryAfter and NetworkError only).\<close>

datatype py_error = KeyError | IndexError | TypeError | ValueError | OSError | TelegramError

text \<open>The module-level configuration constants read from the environment (lines 39-47).
  DOWNLOAD_TIMEOUT is not modelled: a timed-out transfer raises TimedOut, a
  NetworkError.\<close>

record config =
  MAX_DOC_SIZE_MB :: real
  MAX_PHOTO_SIZE_MB :: real
  MAX_TEXT_CHARS :: int
  DOWNLOAD_MAX_RETRIES :: int
  RATE_LIMIT_WINDOW_S :: int
  RATE_LIMIT_MAX :: int
  HISTORY_MAX :: int

text \<open>The defaults of lines 39-47.\<close>

definition default_config :: config where
  "default_config = \<lparr>MAX_DOC_SIZE_MB = 256, MAX_PHOTO_SIZE_MB = 256, MAX_TEXT_CHARS = 50000,
     DOWNLOAD_MAX_RETRIES = 3, RATE_LIMIT_WINDOW_S = 30, RATE_LIMIT_MAX = 5, HISTORY_MAX = 5\<rparr>"

section \<open>Sliding-window rate limiter\<close>

text \<open>rate_limit: a defaultdict(deque) from user id to the timestamps of the admitted
  calls; a user never seen has the empty deque.\<close>

type_synonym rate_state = "user_id \<Rightarrow> real list"

text \<open>The loop of lines 573-574: while the deque is non-empty and its first timestamp is
  older than the window, pop it from the left.\<close>

fun popleft_expired :: "config \<Rightarrow> real \<Rightarrow> real list \<Rightarrow> real list" where
  "popleft_expired cfg now [] = []"
| "popleft_expired cfg now (t # dq) =
     (if now - t > real_of_int (RATE_LIMIT_WINDOW_S cfg) then popleft_expired cfg now dq else t # dq)"

text \<open>_rate_limited (lines 570-578), with the reading of time.time() passed in as now.
  The result True means rejected; the timestamp is appended only on acceptance.\<close>

definition rate_limited :: "config \<Rightarrow> user_id \<Rightarrow> real \<Rightarrow> rate_state \<Rightarrow> bool \<times> rate_state" where
  "rate_limited cfg uid now rl =
     (let dq = popleft_expired cfg now (rl uid) in
      if int (length dq) \<ge> RATE_LIMIT_MAX cfg then (True, rl(uid := dq))
      else (False, rl(uid := dq @ [now])))"

text \<open>A sequence of calls (user, time) run in order from a given state; the result lists
  the decisions (True = rejected) and the final state.\<close>

fun admit_calls :: "config \<Rightarrow> (user_id \<times> real) list \<Rightarrow> rate_state \<Rightarrow> bool list \<times> rate_state" where
  "admit_calls cfg [] rl = ([], rl)"
| "admit_calls cfg ((u, now) # calls) rl =
     (case rate_limited cfg u now rl of (r, rl') \<Rightarrow>
        (case admit_calls cfg calls rl' of (rs, rl'') \<Rightarrow> (r # rs, rl'')))"

text \<open>The times at which user u called, in call order.\<close>

definition call_times :: "user_id \<Rightarrow> (user_id \<times> real) list \<Rightarrow> real list" where
  "call_times u calls = map snd (filter (\<lambda>c. fst c = u) calls)"

text \<open>The timestamps of the calls of user u that were accepted.\<close>

definition accepted_times :: "user_id \<Rightarrow> (user_id \<times> real) list \<Rightarrow> bool list \<Rightarrow> real list" where
  "accepted_times u calls rs = map (snd \<circ> fst) (filter (\<lambda>(c, r). fst c = u \<and> \<not> r) (zip calls rs))"

text \<open>t lies in the trailing window of length RATE_LIMIT_WINDOW_S that ends at now.\<close>

definition in_window :: "config \<Rightarrow> real \<Rightarrow> real \<Rightarrow> bool" where
  "in_window cfg now t \<longleftrightarrow> t \<le> now \<and> now - t \<le> real_of_int (RATE_LIMIT_WINDOW_S cfg)"

definition burst_scenario :: "(user_id \<times> real) list" where
  "burst_scenario = [(7, 0), (7, 0), (7, 0), (7, 0), (7, 0), (7, 1), (7, 31)]"

section \<open>Tutor state machine\<close>

text \<open>The catalogue TUTOR_CONTENT (lines 102-551): per language and level, a list of
  modules, a quiz and a list of common errors. The dictionary keys "code", "q" and
  "name" are the fields example_code, prompt and err_name.\<close>

record module =
  title :: string
  lesson :: string
  example_code :: string
  exercises :: "string list"
  tasks :: "string list"

record question =
  prompt :: string
  options :: "string list"
  answer :: int

record error_entry =
  err_name :: string
  why :: string
  how :: string
  example :: string

record level_content =
  modules :: "module list"
  quiz :: "question list"
  errors :: "error_entry list"

type_synonym catalog = "string \<rightharpoonup> (int \<rightharpoonup> level_content)"

text \<open>What the tutor commands read and never change: the catalogue, and the two Python
  built-ins they call, int() on a string (None where it raises ValueError) and
  str.lower().\<close>

record env =
  TUTOR_CONTENT :: catalog
  py_int :: "string \<Rightarrow> int option"
  py_lower :: "string \<Rightarrow> string"

text \<open>One entry of tutor_state: the dictionary written by tutor_set, with its five keys.\<close>

record session =
  lang :: string
  level :: int
  module_idx :: int
  quiz_idx :: int
  score :: int

type_synonym tutor_state = "user_id \<rightharpoonup> session"

datatype verdict = Correct | Incorrect int

datatype followup = QuizEnd int nat | NextQuestion question int nat

text \<open>The replies of the tutor commands, one constructor per message of the source.
  ModuleMsg m idx total is tutor_format_module(m, idx, total), QuizMsg q idx total
  is tutor_format_quiz(q, idx, total), AnswerMsg carries the verdict and either the
  end-of-quiz summary score/total or the next question.\<close>

datatype reply =
    LearnUsage
  | LevelMustBeNumber
  | LangNotSupported
  | LevelNotAvailable
  | TutorConfigured string int
  | UseLearnFirst
  | NoMoreModules
  | ModuleMsg module int nat
  | NoQuizDefined
  | QuizMsg question int nat
  | UseLearnAndQuizFirst
  | AnswerUsage
  | MustBeNumber
  | NoMoreQuestions
  | AnswerMsg verdict followup
  | ProgressMsg string int int nat int
  | TutorReset

text \<open>What a command handler leaves behind: its reply, or the exception that escaped it,
  and tutor_state as it is then.\<close>

type_synonym outcome = "(py_error + reply) \<times> tutor_state"

text \<open>Python list indexing xs[i]: a negative index counts from the end, an index out of
  range raises IndexError.\<close>

definition py_index :: "'a list \<Rightarrow> int \<Rightarrow> py_error + 'a" where
  "py_index xs i =
     (if 0 \<le> i \<and> i < int (length xs) then Inr (xs ! nat i)
      else if i < 0 \<and> - int (length xs) \<le> i then Inr (xs ! nat (int (length xs) + i))
      else Inl IndexError)"

text \<open>TUTOR_CONTENT[lang][level]; a missing key raises KeyError.\<close>

definition content :: "env \<Rightarrow> string \<Rightarrow> int \<Rightarrow> py_error + level_content" where
  "content e lg lv =
     (case TUTOR_CONTENT e lg of None \<Rightarrow> Inl KeyError
      | Some levels \<Rightarrow> (case levels lv of None \<Rightarrow> Inl KeyError | Some c \<Rightarrow> Inr c))"

text \<open>tutor_set (lines 649-657).\<close>

definition tutor_set :: "user_id \<Rightarrow> string \<Rightarrow> int \<Rightarrow> tutor_state \<Rightarrow> tutor_state" where
  "tutor_set uid lg lv ts =
     ts(uid \<mapsto> \<lparr>lang = lg, level = lv, module_idx = 0, quiz_idx = 0, score = 0\<rparr>)"

text \<open>tutor_current_module (lines 660-668); the three components of the result are
  None where the source returns None.\<close>

definition tutor_current_module ::
  "env \<Rightarrow> tutor_state \<Rightarrow> user_id \<Rightarrow> py_error + (session option \<times> module option \<times> module list option)" where
  "tutor_current_module e ts uid =
     (case ts uid of None \<Rightarrow> Inr (None, None, None)
      | Some st \<Rightarrow>
          (case content e (lang st) (level st) of Inl err \<Rightarrow> Inl err
           | Inr c \<Rightarrow>
               if module_idx st \<ge> int (length (modules c)) then Inr (Some st, None, Some (modules c))
               else (case py_index (modules c) (module_idx st) of Inl err \<Rightarrow> Inl err
                     | Inr m \<Rightarrow> Inr (Some st, Some m, Some (modules c)))))"

text \<open>tutor_quiz_question (lines 671-679).\<close>

definition tutor_quiz_question ::
  "env \<Rightarrow> tutor_state \<Rightarrow> user_id \<Rightarrow> py_error + (session option \<times> question option \<times> question list option)" where
  "tutor_quiz_question e ts uid =
     (case ts uid of None \<Rightarrow> Inr (None, None, None)
      | Some st \<Rightarrow>
          (case content e (lang st) (level st) of Inl err \<Rightarrow> Inl err
           | Inr c \<Rightarrow>
               if quiz_idx st \<ge> int (length (quiz c)) then Inr (Some st, None, Some (quiz c))
               else (case py_index (quiz c) (quiz_idx st) of Inl err \<Rightarrow> Inl err
                     | Inr qn \<Rightarrow> Inr (Some st, Some qn, Some (quiz c)))))"

text \<open>learn_cmd (lines 796-816), the begin operation; args is context.args.\<close>

definition learn_cmd :: "env \<Rightarrow> user_id \<Rightarrow> string list \<Rightarrow> tutor_state \<Rightarrow> outcome" where
  "learn_cmd e uid args ts =
     (if length args < 2 then (Inr LearnUsage, ts)
      else let lg = py_lower e (args ! 0) in
        (case py_int e (args ! 1) of None \<Rightarrow> (Inr LevelMustBeNumber, ts)
         | Some lv \<Rightarrow>
             (case TUTOR_CONTENT e lg of None \<Rightarrow> (Inr LangNotSupported, ts)
              | Some levels \<Rightarrow>
                  (case levels lv of None \<Rightarrow> (Inr LevelNotAvailable, ts)
                   | Some c \<Rightarrow> (Inr (TutorConfigured lg lv), tutor_set uid lg lv ts)))))"

text \<open>next_cmd (lines 819-831), the advance operation: the message is formatted with the
  index before the increment.\<close>

definition next_cmd :: "env \<Rightarrow> user_id \<Rightarrow> tutor_state \<Rightarrow> outcome" where
  "next_cmd e uid ts =
     (case tutor_current_module e ts uid of Inl err \<Rightarrow> (Inl err, ts)
      | Inr (st, md, mods) \<Rightarrow>
          (case st of None \<Rightarrow> (Inr UseLearnFirst, ts)
           | Some s \<Rightarrow>
               (case md of None \<Rightarrow> (Inr NoMoreModules, ts)
                | Some m \<Rightarrow>
                    (case mods of None \<Rightarrow> (Inl TypeError, ts)
                     | Some ms \<Rightarrow>
                         (Inr (ModuleMsg m (module_idx s) (length ms)),
                          ts(uid \<mapsto> s\<lparr>module_idx := module_idx s + 1\<rparr>))))))"

text \<open>quiz_cmd (lines 844-857), the startQuiz operation. The two assignments of lines
  850-851 come before the quiz is looked up, so ts1 is the state in every branch
  after them.\<close>

definition quiz_cmd :: "env \<Rightarrow> user_id \<Rightarrow> tutor_state \<Rightarrow> outcome" where
  "quiz_cmd e uid ts =
     (case ts uid of None \<Rightarrow> (Inr UseLearnFirst, ts)
      | Some st \<Rightarrow>
          let ts1 = ts(uid \<mapsto> st\<lparr>quiz_idx := 0, score := 0\<rparr>) in
          (case tutor_quiz_question e ts1 uid of Inl err \<Rightarrow> (Inl err, ts1)
           | Inr (st2, qn, qz) \<Rightarrow>
               (case qn of None \<Rightarrow> (Inr NoQuizDefined, ts1)
                | Some qq \<Rightarrow>
                    (case (st2, qz) of
                       (Some s2, Some qs) \<Rightarrow> (Inr (QuizMsg qq (quiz_idx s2) (length qs)), ts1)
                     | _ \<Rightarrow> (Inl TypeError, ts1)))))"

text \<open>answer_cmd (lines 860-891), the submitAnswer operation. The session is mutated
  before the next question is indexed, so an IndexError there leaves the mutated
  state.\<close>

definition answer_cmd :: "env \<Rightarrow> user_id \<Rightarrow> string list \<Rightarrow> tutor_state \<Rightarrow> outcome" where
  "answer_cmd e uid args ts =
     (case ts uid of None \<Rightarrow> (Inr UseLearnAndQuizFirst, ts)
      | Some st \<Rightarrow>
          (case args of [] \<Rightarrow> (Inr AnswerUsage, ts)
           | a # _ \<Rightarrow>
               (case py_int e a of None \<Rightarrow> (Inr MustBeNumber, ts)
                | Some n \<Rightarrow>
                    let ans = n - 1 in
                    (case tutor_quiz_question e ts uid of Inl err \<Rightarrow> (Inl err, ts)
                     | Inr (st2, qn, qz) \<Rightarrow>
                         (case qn of None \<Rightarrow> (Inr NoMoreQuestions, ts)
                          | Some qq \<Rightarrow>
                              (case qz of None \<Rightarrow> (Inl TypeError, ts)
                               | Some qs \<Rightarrow>
                                   let correct = (ans = answer qq);
                                       st_a = (if correct then st\<lparr>score := score st + 1\<rparr> else st);
                                       msg = (if correct then Correct else Incorrect (answer qq + 1));
                                       st_b = st_a\<lparr>quiz_idx := quiz_idx st_a + 1\<rparr>;
                                       ts' = ts(uid \<mapsto> st_b)
                                   in if quiz_idx st_b \<ge> int (length qs)
                                      then (Inr (AnswerMsg msg (QuizEnd (score st_b) (length qs))), ts')
                                      else (case py_index qs (quiz_idx st_b) of
                                              Inl err \<Rightarrow> (Inl err, ts')
                                            | Inr next_q \<Rightarrow>
                                                (Inr (AnswerMsg msg (NextQuestion next_q (quiz_idx st_b) (length qs))), ts'))))))))"

text \<open>progress_cmd (lines 894-909): reads only.\<close>

definition progress_cmd :: "env \<Rightarrow> user_id \<Rightarrow> tutor_state \<Rightarrow> outcome" where
  "progress_cmd e uid ts =
     (case ts uid of None \<Rightarrow> (Inr UseLearnFirst, ts)
      | Some st \<Rightarrow>
          (case content e (lang st) (level st) of Inl err \<Rightarrow> (Inl err, ts)
           | Inr c \<Rightarrow>
               let modules_total = length (modules c);
                   modules_done = min (module_idx st) (int modules_total)
               in (Inr (ProgressMsg (lang st) (level st) modules_done modules_total (score st)), ts)))"

text \<open>reset_cmd (lines 912-916): tutor_state.pop(uid, None).\<close>

definition reset_cmd :: "user_id \<Rightarrow> tutor_state \<Rightarrow> outcome" where
  "reset_cmd uid ts = (Inr TutorReset, ts(uid := None))"

text \<open>The six tutoring operations, each with the user who sends it.\<close>

datatype command =
    Learn user_id "string list"
  | Next user_id
  | Quiz user_id
  | Answer user_id "string list"
  | Progress user_id
  | Reset user_id

fun dispatch :: "env \<Rightarrow> command \<Rightarrow> tutor_state \<Rightarrow> outcome" where
  "dispatch e (Learn uid args) ts = learn_cmd e uid args ts"
| "dispatch e (Next uid) ts = next_cmd e uid ts"
| "dispatch e (Quiz uid) ts = quiz_cmd e uid ts"
| "dispatch e (Answer uid args) ts = answer_cmd e uid args ts"
| "dispatch e (Progress uid) ts = progress_cmd e uid ts"
| "dispatch e (Reset uid) ts = reset_cmd uid ts"

text \<open>next_cmd called k times in a row by one user, with the replies in order.\<close>

fun next_times :: "env \<Rightarrow> user_id \<Rightarrow> nat \<Rightarrow> tutor_state \<Rightarrow> (py_error + reply) list \<times> tutor_state" where
  "next_times e uid 0 ts = ([], ts)"
| "next_times e uid (Suc k) ts =
     (case next_cmd e uid ts of (r, ts') \<Rightarrow>
        (case next_times e uid k ts' of (rs, ts'') \<Rightarrow> (r # rs, ts'')))"

text \<open>answer_cmd called once per argument list, in order.\<close>

fun answer_all :: "env \<Rightarrow> user_id \<Rightarrow> string list list \<Rightarrow> tutor_state \<Rightarrow> (py_error + reply) list \<times> tutor_state" where
  "answer_all e uid [] ts = ([], ts)"
| "answer_all e uid (args # rest) ts =
     (case answer_cmd e uid args ts of (r, ts') \<Rightarrow>
        (case answer_all e uid rest ts' of (rs, ts'') \<Rightarrow> (r # rs, ts'')))"

text \<open>The three functions below say what one answer does, in the words of the
  specification: the verdict compares the zero-based form n - 1 of the choice with
  the stored answer, the session gets quiz_idx + 1 and score + 1 on a match, and the
  reply ends with the summary or the next question.\<close>

definition answer_verdict :: "question \<Rightarrow> int \<Rightarrow> verdict" where
  "answer_verdict qn n = (if n - 1 = answer qn then Correct else Incorrect (answer qn + 1))"

definition answered_session :: "question \<Rightarrow> int \<Rightarrow> session \<Rightarrow> session" where
  "answered_session qn n s =
     s\<lparr>quiz_idx := quiz_idx s + 1, score := (if n - 1 = answer qn then score s + 1 else score s)\<rparr>"

definition answer_followup :: "question list \<Rightarrow> session \<Rightarrow> followup" where
  "answer_followup qs s' =
     (if quiz_idx s' \<ge> int (length qs) then QuizEnd (score s') (length qs)
      else NextQuestion (qs ! nat (quiz_idx s')) (quiz_idx s') (length qs))"

text \<open>The first argument parses to the one-based number of the correct option.\<close>

definition names_correct_option :: "env \<Rightarrow> string list \<Rightarrow> question \<Rightarrow> bool" where
  "names_correct_option e args qn =
     (case args of [] \<Rightarrow> False | a # _ \<Rightarrow> py_int e a = Some (answer qn + 1))"

text \<open>The state after a sequence of commands.\<close>

fun run_commands :: "env \<Rightarrow> command list \<Rightarrow> tutor_state \<Rightarrow> tutor_state" where
  "run_commands e [] ts = ts"
| "run_commands e (c # cs) ts = run_commands e cs (snd (dispatch e c ts))"

fun is_begin_or_reset :: "command \<Rightarrow> bool" where
  "is_begin_or_reset (Learn uid args) = True"
| "is_begin_or_reset (Reset uid) = True"
| "is_begin_or_reset c = False"

fun is_start_quiz :: "command \<Rightarrow> bool" where
  "is_start_quiz (Quiz uid) = True"
| "is_start_quiz c = False"

text \<open>The invariants of a session: its language and level exist in the catalogue and
  0 <= module_idx <= len(modules), 0 <= quiz_idx <= len(quiz),
  0 <= score <= quiz_idx.\<close>

definition session_inv :: "env \<Rightarrow> session \<Rightarrow> bool" where
  "session_inv e s =
     (case content e (lang s) (level s) of Inl _ \<Rightarrow> False
      | Inr c \<Rightarrow> 0 \<le> module_idx s \<and> module_idx s \<le> int (length (modules c)) \<and>
                 0 \<le> quiz_idx s \<and> quiz_idx s \<le> int (length (quiz c)) \<and>
                 0 \<le> score s \<and> score s \<le> quiz_idx s)"

text \<open>Example data for the concrete checks below: a parser of unsigned decimal numerals
  standing for int(), and a catalogue shaped like TUTOR_CONTENT for python level 0
  (four modules, three questions with answers 1, 1, 0) and linux_redhat level 2
  (one module, empty quiz). Texts are abridged to ASCII.\<close>

definition digit_value :: "char \<Rightarrow> int option" where
  "digit_value ch =
     (if ch = CHR ''0'' then Some 0 else if ch = CHR ''1'' then Some 1
      else if ch = CHR ''2'' then Some 2 else if ch = CHR ''3'' then Some 3
      else if ch = CHR ''4'' then Some 4 else if ch = CHR ''5'' then Some 5
      else if ch = CHR ''6'' then Some 6 else if ch = CHR ''7'' then Some 7
      else if ch = CHR ''8'' then Some 8 else if ch = CHR ''9'' then Some 9 else None)"

fun decimal_acc :: "int \<Rightarrow> string \<Rightarrow> int option" where
  "decimal_acc acc [] = Some acc"
| "decimal_acc acc (ch # cs) =
     (case digit_value ch of None \<Rightarrow> None | Some d \<Rightarrow> decimal_acc (10 * acc + d) cs)"

definition decimal_int :: "string \<Rightarrow> int option" where
  "decimal_int str = (if str = [] then None else decimal_acc 0 str)"

definition sample_modules :: "module list" where
  "sample_modules =
     [\<lparr>title = ''Variables y tipos'', lesson = ''int/float/str/bool, print, f-strings'',
       example_code = [], exercises = [], tasks = []\<rparr>,
      \<lparr>title = ''Control de flujo'', lesson = ''if/elif/else, comparaciones, bool'',
       example_code = [], exercises = [''Par/impar''], tasks = []\<rparr>,
      \<lparr>title = ''Bucles y colecciones'', lesson = ''for/while, listas, dict, range, len, append'',
       example_code = [], exercises = [''Suma lista''], tasks = []\<rparr>,
      \<lparr>title = ''Funciones'', lesson = ''def, params, return, scope'',
       example_code = [], exercises = [], tasks = []\<rparr>]"

definition sample_quiz :: "question list" where
  "sample_quiz =
     [\<lparr>prompt = ''len = '', options = [''3'', ''4'', ''5''], answer = 1\<rparr>,
      \<lparr>prompt = ''if 5>3'', options = [''nada'', ''ok'', ''error''], answer = 1\<rparr>,
      \<lparr>prompt = ''comprehension'', options = [''[1,3]'', ''[2]'', ''[]''], answer = 0\<rparr>]"

definition sample_catalog :: catalog where
  "sample_catalog =
     [''python'' \<mapsto> [0 \<mapsto> \<lparr>modules = sample_modules, quiz = sample_quiz, errors = []\<rparr>],
      ''linux_redhat'' \<mapsto> [2 \<mapsto> \<lparr>modules = [\<lparr>title = ''Linux/RedHat nivel 2 (placeholder)'',
           lesson = ''Servicios, SELinux, HA, contenedores'', example_code = ''# conceptual'',
           exercises = [''Ej1''], tasks = [''Tarea operativa'']\<rparr>], quiz = [], errors = []\<rparr>]]"

definition sample_env :: env where
  "sample_env = \<lparr>TUTOR_CONTENT = sample_catalog, py_int = decimal_int, py_lower = (\<lambda>s. s)\<rparr>"

definition sample_session :: session where
  "sample_session = \<lparr>lang = ''python'', level = 0, module_idx = 0, quiz_idx = 0, score = 0\<rparr>"

definition sample_content :: level_content where
  "sample_content = \<lparr>modules = sample_modules, quiz = sample_quiz, errors = []\<rparr>"

definition linux_session :: session where
  "linux_session = \<lparr>lang = ''linux_redhat'', level = 2, module_idx = 1, quiz_idx = 0, score = 0\<rparr>"

definition fresh_linux_session :: session where
  "fresh_linux_session = \<lparr>lang = ''linux_redhat'', level = 2, module_idx = 0, quiz_idx = 0, score = 0\<rparr>"

definition linux_content :: level_content where
  "linux_content = \<lparr>modules = [\<lparr>title = ''Linux/RedHat nivel 2 (placeholder)'',
           lesson = ''Servicios, SELinux, HA, contenedores'', example_code = ''# conceptual'',
           exercises = [''Ej1''], tasks = [''Tarea operativa'']\<rparr>], quiz = [], errors = []\<rparr>"

definition mid_quiz_session :: session where
  "mid_quiz_session = \<lparr>lang = ''python'', level = 0, module_idx = 1, quiz_idx = 1, score = 1\<rparr>"

section \<open>Media download, OCR cache and photo handler\<close>

type_synonym bytes = "nat list"

type_synonym path = nat

text \<open>What one call of file_info.download_to_drive does: it writes the bytes, or raises
  RetryAfter(retry_after), NetworkError, or an exception the loop does not catch.\<close>

datatype download_result =
    Downloaded bytes
  | RetryAfter real
  | NetworkError
  | Failed py_error

text \<open>The Telegram side of one download: the result of get_file (the declared file_size,
  possibly None, or an exception) and the outcome of each transfer attempt by its
  number, counted from 1.\<close>

record fetch_env =
  get_file_result :: "py_error + int option"
  attempt_result :: "nat \<Rightarrow> download_result"

text \<open>Functions the handlers call and this development does not look into:
  hashlib.sha256(...).hexdigest(), ocr_image_path of common.py (which catches every
  exception and returns the empty string then), analyze_code, and str.strip().\<close>

record collaborators =
  sha256_hex :: "bytes \<Rightarrow> string"
  ocr_image_path :: "bytes \<Rightarrow> string"
  analyze_code :: "string \<Rightarrow> string"
  py_strip :: "string \<Rightarrow> string"

text \<open>The effects a handler performs, recorded in order. Sleep d stands for waiting d
  seconds; no function of the source performs it, it is here so that waiting can be
  stated.\<close>

datatype effect =
    GetFile
  | CreateTemp path
  | Transfer nat
  | Sleep real
  | OcrCall bytes
  | Remove path

text \<open>The mutable world of the media handlers: the module-level dictionaries rate_limit,
  ocr_cache and user_history, the temporary files on disk with the counter that
  names the next one, and the effects so far.\<close>

record bot_state =
  rate_limit :: rate_state
  ocr_cache :: "string \<rightharpoonup> string"
  user_history :: "user_id \<Rightarrow> (string \<times> string) list"
  files :: "path \<rightharpoonup> bytes"
  next_tmp :: nat
  trace :: "effect list"

definition emit :: "effect \<Rightarrow> bot_state \<Rightarrow> bot_state" where
  "emit ev st = st\<lparr>trace := trace st @ [ev]\<rparr>"

text \<open>Python's round(x, 2) rounds the exact value to the nearest multiple of 0.01, ties
  to even; round_half_even is that rounding on x * 100.\<close>

definition round_half_even :: "real \<Rightarrow> int" where
  "round_half_even x =
     (let f = \<lfloor>x\<rfloor>; d = x - real_of_int f
      in if d < 1 / 2 then f else if d > 1 / 2 then f + 1 else if even f then f else f + 1)"

text \<open>_mb (lines 566-567): round(bytes_size / (1024 * 1024), 2).\<close>

definition mb :: "int \<Rightarrow> real" where
  "mb bytes_size = real_of_int (round_half_even (real_of_int bytes_size / (1024 * 1024) * 100)) / 100"

text \<open>file_info.file_size or 0.\<close>

definition declared_size :: "int option \<Rightarrow> int" where
  "declared_size file_size = (case file_size of None \<Rightarrow> 0 | Some n \<Rightarrow> n)"

text \<open>The for loop of lines 633-642 with the remaining number of iterations: a download
  that succeeds returns the path, RetryAfter and NetworkError go to the next
  iteration, any other exception escapes; when the iterations are used up the
  function returns None (lines 643-644).\<close>

fun attempt_loop :: "fetch_env \<Rightarrow> path \<Rightarrow> nat \<Rightarrow> nat \<Rightarrow> bot_state \<Rightarrow> (py_error + path option) \<times> bot_state" where
  "attempt_loop env tmp_path 0 attempt st = (Inr None, st)"
| "attempt_loop env tmp_path (Suc remaining) attempt st =
     (let st1 = emit (Transfer attempt) st in
      case attempt_result env attempt of
        Downloaded b \<Rightarrow> (Inr (Some tmp_path), st1\<lparr>files := (files st1)(tmp_path \<mapsto> b)\<rparr>)
      | RetryAfter t \<Rightarrow> attempt_loop env tmp_path remaining (Suc attempt) st1
      | NetworkError \<Rightarrow> attempt_loop env tmp_path remaining (Suc attempt) st1
      | Failed e \<Rightarrow> (Inl e, st1))"

text \<open>_download_with_retry (lines 623-644). The temporary file is created empty with
  NamedTemporaryFile(delete=False) after the size check and before the loop.\<close>

definition download_with_retry ::
  "config \<Rightarrow> fetch_env \<Rightarrow> real \<Rightarrow> bot_state \<Rightarrow> (py_error + path option) \<times> bot_state" where
  "download_with_retry cfg env max_mb st =
     (let st0 = emit GetFile st in
      case get_file_result env of
        Inl e \<Rightarrow> (Inl e, st0)
      | Inr file_size \<Rightarrow>
          let size_mb = mb (declared_size file_size) in
          if size_mb > max_mb then (Inr None, st0)
          else
            let tmp_path = next_tmp st0;
                st1 = emit (CreateTemp tmp_path)
                        (st0\<lparr>files := (files st0)(tmp_path \<mapsto> []), next_tmp := Suc tmp_path\<rparr>)
            in attempt_loop env tmp_path (nat (DOWNLOAD_MAX_RETRIES cfg)) 1 st1)"

text \<open>_hash_file (lines 588-593) reads the file in chunks of 8192 bytes until an empty
  read and feeds each chunk to the hash object; the digest is that of their
  concatenation.\<close>

function read_chunks :: "bytes \<Rightarrow> bytes list" where
  "read_chunks bs = (if bs = [] then [] else take 8192 bs # read_chunks (drop 8192 bs))"
  by pat_completeness auto
termination
  by (relation "measure length") auto

text \<open>_hash_file (lines 588-593) reads the file in chunks of 8192 bytes until an empty
  read and feeds each chunk to the hash object; the digest is that of their
  concatenation.\<close>

declare read_chunks.simps [simp del]

definition hash_file :: "collaborators \<Rightarrow> bytes \<Rightarrow> string" where
  "hash_file co data = sha256_hex co (concat (read_chunks data))"

text \<open>The cache lookup of handle_photo (lines 973-978) on the bytes of the downloaded
  file: a hit returns the cached text, a miss runs the OCR and stores its result
  under the hash.\<close>

definition get_or_compute :: "collaborators \<Rightarrow> bytes \<Rightarrow> bot_state \<Rightarrow> string \<times> bot_state" where
  "get_or_compute co data st =
     (let file_hash = hash_file co data in
      case ocr_cache st file_hash of
        Some cached \<Rightarrow> (cached, st)
      | None \<Rightarrow>
          let extracted = ocr_image_path co data;
              st1 = emit (OcrCall data) st
          in (extracted, st1\<lparr>ocr_cache := (ocr_cache st1)(file_hash \<mapsto> extracted)\<rparr>))"

text \<open>Cache lookups for a list of payloads, one after the other.\<close>

fun lookups :: "collaborators \<Rightarrow> bytes list \<Rightarrow> bot_state \<Rightarrow> bot_state" where
  "lookups co [] st = st"
| "lookups co (x # xs) st = lookups co xs (snd (get_or_compute co x st))"

text \<open>The slice xs[:n], n negative included.\<close>

definition py_prefix :: "int \<Rightarrow> 'a list \<Rightarrow> 'a list" where
  "py_prefix n xs = (if 0 \<le> n then take (nat n) xs else take (length xs - nat (- n)) xs)"

text \<open>_sanitize_text (lines 559-563).\<close>

definition sanitize_text :: "config \<Rightarrow> collaborators \<Rightarrow> string \<Rightarrow> string" where
  "sanitize_text cfg co s =
     py_strip co
       (if int (length s) > MAX_TEXT_CHARS cfg
        then py_prefix (MAX_TEXT_CHARS cfg) s @ [CHR 0x0A, CHR 0x0A] @ ''[Truncado por longitud]''
        else s)"

text \<open>_remember (lines 603-604) on a deque(maxlen=HISTORY_MAX); creating the deque with
  a negative maxlen raises ValueError.\<close>

definition remember :: "config \<Rightarrow> user_id \<Rightarrow> string \<Rightarrow> string \<Rightarrow> bot_state \<Rightarrow> py_error + bot_state" where
  "remember cfg uid kind text st =
     (if HISTORY_MAX cfg < 0 then Inl ValueError
      else
        let h = user_history st uid @ [(kind, take 500 text)];
            h' = drop (length h - nat (HISTORY_MAX cfg)) h
        in Inr (st\<lparr>user_history := (user_history st)(uid := h')\<rparr>))"

text \<open>The finally block of the handlers when tmp_path is set: os.remove if the file
  exists.\<close>

definition remove_tmp :: "path \<Rightarrow> bot_state \<Rightarrow> bot_state" where
  "remove_tmp tmp_path st =
     (case files st tmp_path of None \<Rightarrow> st
      | Some b \<Rightarrow> emit (Remove tmp_path) (st\<lparr>files := (files st)(tmp_path := None)\<rparr>))"

datatype photo_reply =
    TooFast
  | PhotoTooBigOrFailed
  | NoTextInImage
  | PhotoError
  | Analysis string

text \<open>The part of an incoming photo update that handle_photo reads, with the clock
  reading at_time and whether send_action succeeds.\<close>

record photo_update =
  from_user :: user_id
  at_time :: real
  photo_count :: nat
  send_action_ok :: bool
  fetch :: fetch_env

text \<open>handle_photo (lines 956-995). tmp_path is assigned only when
  _download_with_retry returns; when that call returns None or raises, tmp_path
  is still None in the finally block and nothing is removed.\<close>

definition handle_photo ::
  "config \<Rightarrow> collaborators \<Rightarrow> photo_update \<Rightarrow> bot_state \<Rightarrow> (py_error + photo_reply option) \<times> bot_state" where
  "handle_photo cfg co upd st =
     (case rate_limited cfg (from_user upd) (at_time upd) (rate_limit st) of
        (limited, rl) \<Rightarrow>
          let st0 = st\<lparr>rate_limit := rl\<rparr> in
          if limited then (Inr (Some TooFast), st0)
          else if photo_count upd = 0 then (Inr None, st0)
          else if \<not> send_action_ok upd then (Inl TelegramError, st0)
          else
            (case download_with_retry cfg (fetch upd) (MAX_PHOTO_SIZE_MB cfg) st0 of
               (Inl e, st1) \<Rightarrow> (Inr (Some PhotoError), st1)
             | (Inr None, st1) \<Rightarrow> (Inr (Some PhotoTooBigOrFailed), st1)
             | (Inr (Some tmp_path), st1) \<Rightarrow>
                 (case files st1 tmp_path of
                    None \<Rightarrow> (Inr (Some PhotoError), st1)
                  | Some data \<Rightarrow>
                      (case get_or_compute co data st1 of
                         (cached_or_ocr, st2) \<Rightarrow>
                           let extracted = sanitize_text cfg co cached_or_ocr in
                           if py_strip co extracted = [] then (Inr (Some NoTextInImage), remove_tmp tmp_path st2)
                           else
                             let analysis = analyze_code co extracted in
                             (case remember cfg (from_user upd) ''foto'' (take 200 extracted) st2 of
                                Inl e \<Rightarrow> (Inr (Some PhotoError), remove_tmp tmp_path st2)
                              | Inr st3 \<Rightarrow> (Inr (Some (Analysis analysis)), remove_tmp tmp_path st3))))))"

fun is_sleep :: "effect \<Rightarrow> bool" where
  "is_sleep (Sleep d) = True"
| "is_sleep ev = False"

fun is_ocr_call :: "effect \<Rightarrow> bool" where
  "is_ocr_call (OcrCall b) = True"
| "is_ocr_call ev = False"

fun is_transfer :: "effect \<Rightarrow> bool" where
  "is_transfer (Transfer k) = True"
| "is_transfer ev = False"

fun is_create_temp :: "effect \<Rightarrow> bool" where
  "is_create_temp (CreateTemp p) = True"
| "is_create_temp ev = False"

text \<open>The number of transfer attempts the loop makes: it goes on after RetryAfter and
  NetworkError and stops at the first other outcome or when the budget is used up.\<close>

fun attempts_made :: "fetch_env \<Rightarrow> nat \<Rightarrow> nat \<Rightarrow> nat" where
  "attempts_made env 0 attempt = 0"
| "attempts_made env (Suc remaining) attempt =
     (case attempt_result env attempt of
        RetryAfter t \<Rightarrow> Suc (attempts_made env remaining (Suc attempt))
      | NetworkError \<Rightarrow> Suc (attempts_made env remaining (Suc attempt))
      | _ \<Rightarrow> 1)"

text \<open>Example data for the concrete checks of the download: the state of a fresh
  process, and four Telegram sides: a file one byte over 256 MB, a first attempt
  answered with RetryAfter(5), a network that always fails, and a first attempt
  that fails with an exception the loop does not catch.\<close>

definition initial_state :: bot_state where
  "initial_state = \<lparr>rate_limit = (\<lambda>_. []), ocr_cache = Map.empty, user_history = (\<lambda>_. []),
     files = Map.empty, next_tmp = 0, trace = []\<rparr>"

definition oversize_env :: fetch_env where
  "oversize_env = \<lparr>get_file_result = Inr (Some 268435457), attempt_result = (\<lambda>k. Downloaded [1, 2, 3])\<rparr>"

definition retry_env :: fetch_env where
  "retry_env = \<lparr>get_file_result = Inr (Some 2048),
     attempt_result = (\<lambda>k. if k = 1 then RetryAfter 5 else Downloaded [1, 2, 3])\<rparr>"

definition flaky_env :: fetch_env where
  "flaky_env = \<lparr>get_file_result = Inr (Some 2048), attempt_result = (\<lambda>k. NetworkError)\<rparr>"

definition photo_of :: "fetch_env \<Rightarrow> photo_update" where
  "photo_of env = \<lparr>from_user = 7, at_time = 0, photo_count = 1, send_action_ok = True, fetch = env\<rparr>"

definition denied_env :: fetch_env where
  "denied_env = \<lparr>get_file_result = Inr (Some 2048), attempt_result = (\<lambda>k. Failed TelegramError)\<rparr>"

section \<open>Properties: sliding-window rate limiter\<close>

lemma burst_run:
  "fst (admit_calls default_config burst_scenario (\<lambda>_. [])) = [False, False, False, False, False, True, False]"
  "snd (admit_calls default_config burst_scenario (\<lambda>_. [])) 7 = [31]"
  by (simp_all add: burst_scenario_def default_config_def rate_limited_def)

lemma popleft_expired_filter:
  "sorted dq \<Longrightarrow> popleft_expired cfg now dq = filter (\<lambda>t. now - t \<le> real_of_int (RATE_LIMIT_WINDOW_S cfg)) dq"
proof (induction dq)
  case Nil
  then show ?case by simp
next
  case (Cons t dq)
  show ?case
  proof (cases "now - t > real_of_int (RATE_LIMIT_WINDOW_S cfg)")
    case True
    with Cons show ?thesis by simp
  next
    case False
    have "\<forall>x\<in>set dq. now - x \<le> real_of_int (RATE_LIMIT_WINDOW_S cfg)"
      using Cons.prems False by auto
    then have "filter (\<lambda>t. now - t \<le> real_of_int (RATE_LIMIT_WINDOW_S cfg)) dq = dq"
      by (simp add: filter_id_conv)
    with False show ?thesis by simp
  qed
qed

lemma admit_calls_append:
  "admit_calls cfg (xs @ ys) rl =
     (case admit_calls cfg xs rl of (rs1, rl1) \<Rightarrow>
        (case admit_calls cfg ys rl1 of (rs2, rl2) \<Rightarrow> (rs1 @ rs2, rl2)))"
  by (induction xs arbitrary: rl) (auto split: prod.splits)

lemma admit_calls_length: "admit_calls cfg calls rl = (rs, rl') \<Longrightarrow> length rs = length calls"
  by (induction calls arbitrary: rl rs rl') (auto split: prod.splits)

lemma accepted_times_snoc:
  "length rs = length calls \<Longrightarrow>
   accepted_times u (calls @ [(v, now)]) (rs @ [r]) =
     accepted_times u calls rs @ (if v = u \<and> \<not> r then [now] else [])"
  by (simp add: accepted_times_def)

lemma call_times_snoc:
  "call_times u (calls @ [(v, now)]) = call_times u calls @ (if v = u then [now] else [])"
  by (simp add: call_times_def)

lemma filter_window_mono:
  assumes "L \<le> now"
  shows "filter (\<lambda>t. now - t \<le> w) (filter (\<lambda>t. L - t \<le> w) A) = filter (\<lambda>t. now - t \<le> (w::real)) A"
proof -
  have "\<And>t. now - t \<le> w \<Longrightarrow> L - t \<le> w" using assms by linarith
  then show ?thesis by (induction A) auto
qed

lemma admit_calls_invariant:
  assumes W: "0 \<le> RATE_LIMIT_WINDOW_S cfg" and M: "0 \<le> RATE_LIMIT_MAX cfg"
  shows "sorted (call_times u calls) \<Longrightarrow> admit_calls cfg calls (\<lambda>_. []) = (rs, rl) \<Longrightarrow>
     sorted (accepted_times u calls rs) \<and>
     set (accepted_times u calls rs) \<subseteq> set (call_times u calls) \<and>
     rl u = filter (\<lambda>t. last (call_times u calls) - t \<le> real_of_int (RATE_LIMIT_WINDOW_S cfg))
              (accepted_times u calls rs) \<and>
     int (length (rl u)) \<le> RATE_LIMIT_MAX cfg"
proof (induction calls arbitrary: rs rl rule: rev_induct)
  case Nil
  then show ?case using M by (auto simp add: accepted_times_def call_times_def)
next
  case (snoc c calls)
  obtain v now where c: "c = (v, now)" by (cases c)
  obtain rs0 rl0 where run0: "admit_calls cfg calls (\<lambda>_. []) = (rs0, rl0)"
    by (cases "admit_calls cfg calls (\<lambda>_. [])")
  obtain r where step: "rate_limited cfg v now rl0 = (r, rl)" and rs: "rs = rs0 @ [r]"
    using snoc.prems(2) run0 by (auto simp: admit_calls_append c split: prod.splits)
  have len: "length rs0 = length calls" using run0 by (rule admit_calls_length)
  have sorted0: "sorted (call_times u calls)"
    using snoc.prems(1) by (simp add: call_times_snoc c sorted_append split: if_splits)
  note IH = snoc.IH[OF sorted0 run0]
  let ?w = "real_of_int (RATE_LIMIT_WINDOW_S cfg)"
  let ?A = "accepted_times u calls rs0"
  from IH have A_sorted: "sorted ?A" and A_sub: "set ?A \<subseteq> set (call_times u calls)"
    and rl0: "rl0 u = filter (\<lambda>t. last (call_times u calls) - t \<le> ?w) ?A"
    and rl0_len: "int (length (rl0 u)) \<le> RATE_LIMIT_MAX cfg"
    by blast+
  show ?case
  proof (cases "v = u")
    case False
    then have "rl u = rl0 u" using step by (auto simp: rate_limited_def Let_def split: if_splits)
    with False A_sorted A_sub rl0 rl0_len show ?thesis
      by (simp add: c rs accepted_times_snoc[OF len] call_times_snoc)
  next
    case True
    have le_now: "\<forall>t\<in>set (call_times u calls). t \<le> now"
      using snoc.prems(1) True by (simp add: call_times_snoc c sorted_append)
    then have A_le: "\<forall>t\<in>set ?A. t \<le> now" using A_sub by blast
    have sorted_rl0: "sorted (rl0 u)" using A_sorted by (simp add: rl0 sorted_wrt_filter)
    have dq: "popleft_expired cfg now (rl0 u) = filter (\<lambda>t. now - t \<le> ?w) ?A"
    proof (cases "call_times u calls = []")
      case True
      then have "?A = []" using A_sub by simp
      then show ?thesis by (simp add: rl0)
    next
      case False
      then have "last (call_times u calls) \<le> now" using le_now by simp
      then have "filter (\<lambda>t. now - t \<le> ?w) (rl0 u) = filter (\<lambda>t. now - t \<le> ?w) ?A"
        unfolding rl0 by (rule filter_window_mono)
      then show ?thesis by (simp add: popleft_expired_filter[OF sorted_rl0])
    qed
    have dq_len: "length (popleft_expired cfg now (rl0 u)) \<le> length (rl0 u)"
      by (simp add: popleft_expired_filter[OF sorted_rl0])
    have last_now: "last (call_times u (calls @ [c])) = now"
      using True by (simp add: call_times_snoc c)
    show ?thesis
    proof (cases r)
      case True
      then have rl: "rl u = popleft_expired cfg now (rl0 u)"
        using step \<open>v = u\<close> by (auto simp: rate_limited_def Let_def split: if_splits)
      have acc: "accepted_times u (calls @ [c]) rs = ?A"
        using True by (simp add: c rs accepted_times_snoc[OF len])
      have "int (length (rl u)) \<le> RATE_LIMIT_MAX cfg"
        using dq_len rl0_len unfolding rl by linarith
      moreover have "set ?A \<subseteq> set (call_times u (calls @ [c]))"
        using A_sub by (auto simp: call_times_snoc c)
      ultimately show ?thesis
        unfolding acc last_now using A_sorted rl dq by simp
    next
      case False
      then have rl: "rl u = popleft_expired cfg now (rl0 u) @ [now]"
          and lt: "int (length (popleft_expired cfg now (rl0 u))) < RATE_LIMIT_MAX cfg"
        using step \<open>v = u\<close> by (auto simp: rate_limited_def Let_def split: if_splits)
      have acc: "accepted_times u (calls @ [c]) rs = ?A @ [now]"
        using False \<open>v = u\<close> by (simp add: c rs accepted_times_snoc[OF len])
      have "int (length (rl u)) \<le> RATE_LIMIT_MAX cfg"
        using rl lt by simp
      moreover have "set (?A @ [now]) \<subseteq> set (call_times u (calls @ [c]))"
        using A_sub \<open>v = u\<close> by (auto simp: call_times_snoc c)
      moreover have "sorted (?A @ [now])" using A_sorted A_le by (simp add: sorted_append)
      moreover have "rl u = filter (\<lambda>t. now - t \<le> ?w) (?A @ [now])"
        using rl dq W by simp
      ultimately show ?thesis
        unfolding acc last_now by simp
    qed
  qed
qed

lemma filter_filter_implied:
  "(\<And>t. P t \<Longrightarrow> Q t) \<Longrightarrow> filter P (filter Q A) = filter P A"
  by (induction A) auto

lemma window_count_after_last:
  assumes W: "0 \<le> RATE_LIMIT_WINDOW_S cfg" and M: "0 \<le> RATE_LIMIT_MAX cfg"
    and srt: "sorted (call_times u calls)"
    and run: "admit_calls cfg calls (\<lambda>_. []) = (rs, rl)"
    and T: "\<forall>t\<in>set (call_times u calls). t \<le> T"
  shows "int (length (filter (in_window cfg T) (accepted_times u calls rs))) \<le> RATE_LIMIT_MAX cfg"
proof -
  let ?w = "real_of_int (RATE_LIMIT_WINDOW_S cfg)"
  let ?A = "accepted_times u calls rs"
  let ?L = "last (call_times u calls)"
  from admit_calls_invariant[OF W M srt run]
  have A_sub: "set ?A \<subseteq> set (call_times u calls)"
    and rl: "rl u = filter (\<lambda>t. ?L - t \<le> ?w) ?A"
    and len: "int (length (rl u)) \<le> RATE_LIMIT_MAX cfg"
    by blast+
  show ?thesis
  proof (cases "call_times u calls = []")
    case True
    then have "?A = []" using A_sub by simp
    then show ?thesis using M by simp
  next
    case False
    then have "?L \<le> T" using T by simp
    then have "\<And>t. in_window cfg T t \<Longrightarrow> ?L - t \<le> ?w"
      unfolding in_window_def by linarith
    then have "filter (in_window cfg T) ?A = filter (in_window cfg T) (rl u)"
      unfolding rl by (rule filter_filter_implied[symmetric])
    moreover have "int (length (filter (in_window cfg T) (rl u))) \<le> int (length (rl u))"
      by simp
    ultimately show ?thesis using len by (simp only: order_trans)
  qed
qed

lemma window_count_any:
  assumes W: "0 \<le> RATE_LIMIT_WINDOW_S cfg" and M: "0 \<le> RATE_LIMIT_MAX cfg"
  shows "sorted (call_times u calls) \<Longrightarrow> admit_calls cfg calls (\<lambda>_. []) = (rs, rl) \<Longrightarrow>
     int (length (filter (in_window cfg T) (accepted_times u calls rs))) \<le> RATE_LIMIT_MAX cfg"
proof (induction calls arbitrary: rs rl rule: rev_induct)
  case Nil
  then show ?case using M by (auto simp add: accepted_times_def)
next
  case (snoc c calls)
  obtain v now where c: "c = (v, now)" by (cases c)
  obtain rs0 rl0 where run0: "admit_calls cfg calls (\<lambda>_. []) = (rs0, rl0)"
    by (cases "admit_calls cfg calls (\<lambda>_. [])")
  obtain r where rs: "rs = rs0 @ [r]"
    using snoc.prems(2) run0 by (auto simp: admit_calls_append c split: prod.splits)
  have len: "length rs0 = length calls" using run0 by (rule admit_calls_length)
  have sorted0: "sorted (call_times u calls)"
    using snoc.prems(1) by (simp add: call_times_snoc c sorted_append split: if_splits)
  note IH = snoc.IH[OF sorted0 run0]
  show ?case
  proof (cases "v = u \<and> \<not> r \<and> now \<le> T")
    case True
    then have "\<forall>t\<in>set (call_times u (calls @ [c])). t \<le> T"
      using snoc.prems(1) by (auto simp: call_times_snoc c sorted_append)
    then show ?thesis
      by (rule window_count_after_last[OF W M snoc.prems(1) snoc.prems(2)])
  next
    case False
    then have "filter (in_window cfg T) (accepted_times u (calls @ [c]) rs) =
               filter (in_window cfg T) (accepted_times u calls rs0)"
      by (auto simp: c rs accepted_times_snoc[OF len] in_window_def)
    then show ?thesis using IH by simp
  qed
qed

text \<open>Claim C1. For every user u and every sequence of calls in which the times of u's
  calls do not decrease, started from the empty deque, with a window length and a
  maximum that are not negative: for every T, at most RATE_LIMIT_MAX accepted calls
  of u have their timestamp in the window of length RATE_LIMIT_WINDOW_S that ends
  at T; and right after a decision for u at time now, every retained timestamp lies
  in the trailing window, the deque has at most RATE_LIMIT_MAX entries, and it
  holds exactly the accepted timestamps of the trailing window.\<close>

theorem rate_limited_window_bound:
  assumes "0 \<le> RATE_LIMIT_WINDOW_S cfg" and "0 \<le> RATE_LIMIT_MAX cfg"
    and "sorted (call_times u calls)"
    and "admit_calls cfg calls (\<lambda>_. []) = (rs, rl)"
  shows "(\<forall>T. int (length (filter (in_window cfg T) (accepted_times u calls rs))) \<le> RATE_LIMIT_MAX cfg) \<and>
         (\<forall>now. calls \<noteq> [] \<and> last calls = (u, now) \<longrightarrow>
            (\<forall>t\<in>set (rl u). in_window cfg now t) \<and>
            int (length (rl u)) \<le> RATE_LIMIT_MAX cfg \<and>
            rl u = filter (in_window cfg now) (accepted_times u calls rs))"
proof (intro conjI allI impI)
  fix T
  show "int (length (filter (in_window cfg T) (accepted_times u calls rs))) \<le> RATE_LIMIT_MAX cfg"
    using assms by (rule window_count_any)
next
  fix now
  assume last: "calls \<noteq> [] \<and> last calls = (u, now)"
  let ?w = "real_of_int (RATE_LIMIT_WINDOW_S cfg)"
  let ?A = "accepted_times u calls rs"
  from last obtain calls0 where calls: "calls = calls0 @ [(u, now)]"
    by (metis append_butlast_last_id)
  have L: "last (call_times u calls) = now"
    by (simp add: calls call_times_snoc)
  from admit_calls_invariant[OF assms]
  have A_sub: "set ?A \<subseteq> set (call_times u calls)"
    and rl: "rl u = filter (\<lambda>t. now - t \<le> ?w) ?A"
    and len: "int (length (rl u)) \<le> RATE_LIMIT_MAX cfg"
    unfolding L by blast+
  have "\<forall>t\<in>set (call_times u calls). t \<le> now"
    using assms(3) by (auto simp: calls call_times_snoc sorted_append)
  then have A_le: "\<forall>t\<in>set ?A. t \<le> now" using A_sub by blast
  then have eq: "filter (\<lambda>t. now - t \<le> ?w) ?A = filter (in_window cfg now) ?A"
    by (auto simp: in_window_def intro: filter_cong)
  show "rl u = filter (in_window cfg now) ?A" using rl eq by simp
  then show "\<forall>t\<in>set (rl u). in_window cfg now t" by simp
  show "int (length (rl u)) \<le> RATE_LIMIT_MAX cfg" by (rule len)
qed

text \<open>The scenario W = 30, M = 5: five calls at time 0 are accepted, a sixth at time 1 is
  rejected, a call at time 31 is accepted again.\<close>

theorem rate_limited_window_bound_witness:
  "0 \<le> RATE_LIMIT_WINDOW_S default_config \<and> 0 \<le> RATE_LIMIT_MAX default_config \<and>
   sorted (call_times 7 burst_scenario) \<and>
   fst (admit_calls default_config burst_scenario (\<lambda>_. [])) = [False, False, False, False, False, True, False] \<and>
   snd (admit_calls default_config burst_scenario (\<lambda>_. [])) 7 = [31] \<and>
   int (length (filter (in_window default_config 30)
      (accepted_times 7 burst_scenario (fst (admit_calls default_config burst_scenario (\<lambda>_. [])))))) \<le> 5 \<and>
   list_all (in_window default_config 31) (snd (admit_calls default_config burst_scenario (\<lambda>_. [])) 7)"
proof -
  have h1: "0 \<le> RATE_LIMIT_WINDOW_S default_config" and h2: "0 \<le> RATE_LIMIT_MAX default_config"
    by (simp_all add: default_config_def)
  have h3: "sorted (call_times 7 burst_scenario)"
    by (simp add: call_times_def burst_scenario_def)
  have h4: "admit_calls default_config burst_scenario (\<lambda>_. []) =
      (fst (admit_calls default_config burst_scenario (\<lambda>_. [])),
       snd (admit_calls default_config burst_scenario (\<lambda>_. [])))" by simp
  have h5: "burst_scenario \<noteq> [] \<and> last burst_scenario = (7, 31)"
    by (simp add: burst_scenario_def)
  from rate_limited_window_bound[OF h1 h2 h3 h4] h5
  have "int (length (filter (in_window default_config 30)
      (accepted_times 7 burst_scenario (fst (admit_calls default_config burst_scenario (\<lambda>_. [])))))) \<le> RATE_LIMIT_MAX default_config"
    and "\<forall>t\<in>set (snd (admit_calls default_config burst_scenario (\<lambda>_. [])) 7). in_window default_config 31 t"
    by blast+
  then show ?thesis using h1 h2 h3 burst_run by (simp add: default_config_def list_all_iff)
qed

section \<open>Properties: tutor state machine\<close>

lemma sample_content_lookup:
  "content sample_env (lang sample_session) (level sample_session) = Inr sample_content"
  by (simp add: content_def sample_env_def sample_catalog_def sample_session_def sample_content_def)

lemma linux_content_lookup: "content sample_env ''linux_redhat'' 2 = Inr linux_content"
  by (simp add: content_def sample_env_def sample_catalog_def linux_content_def)

lemmas tutor_eval =
  learn_cmd_def next_cmd_def quiz_cmd_def answer_cmd_def progress_cmd_def reset_cmd_def
  tutor_set_def tutor_current_module_def tutor_quiz_question_def content_def py_index_def
  sample_env_def sample_catalog_def sample_modules_def sample_quiz_def decimal_int_def
  digit_value_def Let_def

lemma sample_learn:
  "learn_cmd sample_env 7 [''python'', ''0''] Map.empty =
     (Inr (TutorConfigured ''python'' 0), [7 \<mapsto> sample_session])"
  by (simp add: tutor_eval sample_session_def)

lemma sample_run:
  "run_commands sample_env [Next 7, Quiz 7, Answer 7 [''2'']] [7 \<mapsto> sample_session] =
     [7 \<mapsto> mid_quiz_session]"
  by (simp add: tutor_eval sample_session_def mid_quiz_session_def)

lemma mid_quiz_restart:
  "snd (dispatch sample_env (Quiz 7) [7 \<mapsto> mid_quiz_session]) =
     [7 \<mapsto> mid_quiz_session\<lparr>quiz_idx := 0, score := 0\<rparr>]"
  by (simp add: tutor_eval mid_quiz_session_def)

lemma sample_next:
  "snd (dispatch sample_env (Next 7) [7 \<mapsto> sample_session]) =
     [7 \<mapsto> sample_session\<lparr>module_idx := 1\<rparr>]"
  by (simp add: tutor_eval sample_session_def)

lemma py_index_nat: "i < length xs \<Longrightarrow> py_index xs (int i) = Inr (xs ! i)"
  by (simp add: py_index_def)

lemma next_cmd_current:
  assumes "ts uid = Some s" and "content e (lang s) (level s) = Inr c"
    and "module_idx s = int i" and "i < length (modules c)"
  shows "next_cmd e uid ts =
     (Inr (ModuleMsg (modules c ! i) (int i) (length (modules c))),
      ts(uid \<mapsto> s\<lparr>module_idx := int (Suc i)\<rparr>))"
  using assms by (simp add: next_cmd_def tutor_current_module_def py_index_nat add.commute)

lemma next_cmd_exhausted:
  assumes "ts uid = Some s" and "content e (lang s) (level s) = Inr c"
    and "module_idx s \<ge> int (length (modules c))"
  shows "next_cmd e uid ts = (Inr NoMoreModules, ts)"
  using assms by (simp add: next_cmd_def tutor_current_module_def)

lemma next_times_exhausted:
  assumes "ts uid = Some s" and "content e (lang s) (level s) = Inr c"
    and "module_idx s \<ge> int (length (modules c))"
  shows "next_times e uid k ts = (replicate k (Inr NoMoreModules), ts)"
  by (induction k) (simp_all add: next_cmd_exhausted[where ts=ts and uid=uid, OF assms])

lemma next_times_from:
  "ts uid = Some s \<Longrightarrow> content e (lang s) (level s) = Inr c \<Longrightarrow>
   module_idx s = int i \<Longrightarrow> i + k = length (modules c) \<Longrightarrow>
   next_times e uid k ts =
     (map (\<lambda>j. Inr (ModuleMsg (modules c ! j) (int j) (length (modules c)))) [i..<i + k],
      ts(uid \<mapsto> s\<lparr>module_idx := int (i + k)\<rparr>))"
proof (induction k arbitrary: ts s i)
  case 0
  then show ?case by (auto simp: fun_eq_iff)
next
  case (Suc k)
  let ?s' = "s\<lparr>module_idx := int (Suc i)\<rparr>"
  let ?ts' = "ts(uid \<mapsto> ?s')"
  have lt: "i < length (modules c)" using Suc.prems(4) by simp
  have step: "next_cmd e uid ts =
      (Inr (ModuleMsg (modules c ! i) (int i) (length (modules c))), ?ts')"
    by (rule next_cmd_current[where ts=ts and uid=uid, OF Suc.prems(1,2,3) lt])
  have rest: "next_times e uid k ?ts' =
     (map (\<lambda>j. Inr (ModuleMsg (modules c ! j) (int j) (length (modules c)))) [Suc i..<Suc i + k],
      ?ts'(uid \<mapsto> ?s'\<lparr>module_idx := int (Suc i + k)\<rparr>))"
    by (rule Suc.IH[where ts="?ts'" and s="?s'"]) (use Suc.prems in simp_all)
  have "next_times e uid (Suc k) ts =
     (Inr (ModuleMsg (modules c ! i) (int i) (length (modules c))) #
      map (\<lambda>j. Inr (ModuleMsg (modules c ! j) (int j) (length (modules c)))) [Suc i..<Suc i + k],
      ?ts'(uid \<mapsto> ?s'\<lparr>module_idx := int (Suc i + k)\<rparr>))"
    by (simp only: next_times.simps step rest prod.case)
  moreover have "[i..<i + Suc k] = i # [Suc i..<Suc i + k]"
    by (simp add: upt_conv_Cons del: upt_Suc)
  moreover have "?ts'(uid \<mapsto> ?s'\<lparr>module_idx := int (Suc i + k)\<rparr>) =
      ts(uid \<mapsto> s\<lparr>module_idx := int (i + Suc k)\<rparr>)"
    by simp
  ultimately show ?case by (simp only: list.map)
qed

text \<open>Claim C2. For a session with module_idx = 0 over a catalogue entry c, calling
  next_cmd len(modules c) times replies with module j at position j, for
  j = 0, 1, ... in catalogue order, formatted with the index j it had before the
  increment, and leaves module_idx = len(modules c); from there every further call
  replies that there are no more modules and leaves the state as it is.\<close>

theorem next_cmd_yields_each_module_once:
  assumes "ts uid = Some s" and "module_idx s = 0"
    and "content e (lang s) (level s) = Inr c"
  shows "next_times e uid (length (modules c)) ts =
           (map (\<lambda>j. Inr (ModuleMsg (modules c ! j) (int j) (length (modules c))))
              [0..<length (modules c)],
            ts(uid \<mapsto> s\<lparr>module_idx := int (length (modules c))\<rparr>)) \<and>
         (\<forall>k. next_times e uid k (ts(uid \<mapsto> s\<lparr>module_idx := int (length (modules c))\<rparr>)) =
            (replicate k (Inr NoMoreModules),
             ts(uid \<mapsto> s\<lparr>module_idx := int (length (modules c))\<rparr>)))"
proof
  show "next_times e uid (length (modules c)) ts =
           (map (\<lambda>j. Inr (ModuleMsg (modules c ! j) (int j) (length (modules c))))
              [0..<length (modules c)],
            ts(uid \<mapsto> s\<lparr>module_idx := int (length (modules c))\<rparr>))"
    using next_times_from[where ts=ts and uid=uid and i=0 and k="length (modules c)", OF assms(1) assms(3)] assms(2) by simp
next
  let ?s' = "s\<lparr>module_idx := int (length (modules c))\<rparr>"
  have "(ts(uid \<mapsto> ?s')) uid = Some ?s'" by simp
  moreover have "content e (lang ?s') (level ?s') = Inr c" using assms(3) by simp
  moreover have "module_idx ?s' \<ge> int (length (modules c))" by simp
  ultimately show "\<forall>k. next_times e uid k (ts(uid \<mapsto> ?s')) =
            (replicate k (Inr NoMoreModules), ts(uid \<mapsto> ?s'))"
    using next_times_exhausted[where ts="ts(uid \<mapsto> ?s')" and uid=uid and s="?s'" and e=e and c=c] by blast
qed

text \<open>Python level 0: four calls give the four modules in order, two more give the
  exhausted reply.\<close>

theorem next_cmd_yields_each_module_once_witness:
  "[7 \<mapsto> sample_session] (7::user_id) = Some sample_session \<and> module_idx sample_session = 0 \<and>
   content sample_env (lang sample_session) (level sample_session) = Inr sample_content \<and>
   fst (next_times sample_env 7 4 [7 \<mapsto> sample_session]) =
     [Inr (ModuleMsg (sample_modules ! 0) 0 4), Inr (ModuleMsg (sample_modules ! 1) 1 4),
      Inr (ModuleMsg (sample_modules ! 2) 2 4), Inr (ModuleMsg (sample_modules ! 3) 3 4)] \<and>
   next_times sample_env 7 2 (snd (next_times sample_env 7 4 [7 \<mapsto> sample_session])) =
     ([Inr NoMoreModules, Inr NoMoreModules], [7 \<mapsto> sample_session\<lparr>module_idx := 4\<rparr>])"
proof -
  have h1: "[7 \<mapsto> sample_session] (7::int) = Some sample_session" by simp
  have h2: "module_idx sample_session = 0" by (simp add: sample_session_def)
  have len: "length (modules sample_content) = 4"
    by (simp add: sample_content_def sample_modules_def)
  have upt: "[0..<4] = [0, 1, 2, Suc 2]" by (simp add: upt_rec)
  note inst = next_cmd_yields_each_module_once[where ts="[7 \<mapsto> sample_session]" and uid=7,
      OF h1 h2 sample_content_lookup, unfolded len]
  have run: "next_times sample_env 7 4 [7 \<mapsto> sample_session] =
      ([Inr (ModuleMsg (sample_modules ! 0) 0 4), Inr (ModuleMsg (sample_modules ! 1) 1 4),
        Inr (ModuleMsg (sample_modules ! 2) 2 4), Inr (ModuleMsg (sample_modules ! 3) 3 4)],
       [7 \<mapsto> sample_session\<lparr>module_idx := 4\<rparr>])"
    using conjunct1[OF inst] by (simp add: upt sample_content_def)
  have after: "next_times sample_env 7 2 [7 \<mapsto> sample_session\<lparr>module_idx := 4\<rparr>] =
      ([Inr NoMoreModules, Inr NoMoreModules], [7 \<mapsto> sample_session\<lparr>module_idx := 4\<rparr>])"
    using conjunct2[OF inst, rule_format, of 2] by (simp add: numeral_2_eq_2)
  show ?thesis
    using h1 h2 sample_content_lookup after by (simp add: run)
qed

lemma answer_cmd_step:
  assumes "ts uid = Some s" and "content e (lang s) (level s) = Inr c"
    and "0 \<le> quiz_idx s" and "quiz_idx s < int (length (quiz c))"
    and "py_int e a = Some n"
  shows "answer_cmd e uid (a # rest) ts =
     (Inr (AnswerMsg (answer_verdict (quiz c ! nat (quiz_idx s)) n)
            (answer_followup (quiz c) (answered_session (quiz c ! nat (quiz_idx s)) n s))),
      ts(uid \<mapsto> answered_session (quiz c ! nat (quiz_idx s)) n s))"
proof -
  have cur: "py_index (quiz c) (quiz_idx s) = Inr (quiz c ! nat (quiz_idx s))"
    using assms(3,4) by (simp add: py_index_def)
  have q: "tutor_quiz_question e ts uid = Inr (Some s, Some (quiz c ! nat (quiz_idx s)), Some (quiz c))"
    using assms(1,2,4) cur by (simp add: tutor_quiz_question_def)
  have nxt: "quiz_idx s + 1 < int (length (quiz c)) \<Longrightarrow>
      py_index (quiz c) (quiz_idx s + 1) = Inr (quiz c ! nat (quiz_idx s + 1))"
    using assms(3) by (simp add: py_index_def)
  show ?thesis
    using assms(1,5) nxt
    by (auto simp add: answer_cmd_def q Let_def answer_verdict_def answered_session_def
          answer_followup_def)
qed

lemma snd_answer_all_Cons:
  "snd (answer_all e uid (args # rest) ts) =
   snd (answer_all e uid rest (snd (answer_cmd e uid args ts)))"
  by (simp split: prod.splits)

lemma answer_all_correct_from:
  "ts uid = Some s \<Longrightarrow> content e (lang s) (level s) = Inr c \<Longrightarrow>
   quiz_idx s = int i \<Longrightarrow> i \<le> length (quiz c) \<Longrightarrow>
   list_all2 (names_correct_option e) argss (drop i (quiz c)) \<Longrightarrow>
   \<exists>s'. snd (answer_all e uid argss ts) uid = Some s' \<and>
        quiz_idx s' = int (length (quiz c)) \<and>
        score s' = score s + int (length (quiz c) - i) \<and>
        lang s' = lang s \<and> level s' = level s \<and> module_idx s' = module_idx s"
proof (induction argss arbitrary: ts s i)
  case Nil
  then have "i = length (quiz c)" by simp
  with Nil show ?case by simp
next
  case (Cons args argss)
  from Cons.prems(5) have "drop i (quiz c) \<noteq> []" by auto
  then have lt: "i < length (quiz c)" by simp
  then have dr: "drop i (quiz c) = quiz c ! i # drop (Suc i) (quiz c)"
    by (simp add: Cons_nth_drop_Suc)
  from Cons.prems(5) dr have hd: "names_correct_option e args (quiz c ! i)"
      and tl: "list_all2 (names_correct_option e) argss (drop (Suc i) (quiz c))"
    by simp_all
  from hd obtain a rest where args: "args = a # rest"
      and a: "py_int e a = Some (answer (quiz c ! i) + 1)"
    by (auto simp: names_correct_option_def split: list.splits)
  let ?s1 = "answered_session (quiz c ! i) (answer (quiz c ! i) + 1) s"
  let ?ts1 = "ts(uid \<mapsto> ?s1)"
  have step: "snd (answer_cmd e uid args ts) = ?ts1"
    using answer_cmd_step[where ts=ts and uid=uid and rest=rest, OF Cons.prems(1,2) _ _ a] lt Cons.prems(3)
    by (simp add: args)
  have s1: "quiz_idx ?s1 = int (Suc i)" "score ?s1 = score s + 1"
      "lang ?s1 = lang s" "level ?s1 = level s" "module_idx ?s1 = module_idx s"
    using Cons.prems(3) by (simp_all add: answered_session_def)
  have "\<exists>s'. snd (answer_all e uid argss ?ts1) uid = Some s' \<and>
        quiz_idx s' = int (length (quiz c)) \<and>
        score s' = score ?s1 + int (length (quiz c) - Suc i) \<and>
        lang s' = lang ?s1 \<and> level s' = level ?s1 \<and> module_idx s' = module_idx ?s1"
    by (rule Cons.IH[where ts="?ts1" and s="?s1"]) (use Cons.prems(2) s1 lt tl in simp_all)
  moreover have "snd (answer_all e uid (args # argss) ts) = snd (answer_all e uid argss ?ts1)"
    by (simp only: snd_answer_all_Cons step)
  ultimately show ?case using s1 lt by auto
qed

lemma quiz_cmd_result:
  assumes "ts uid = Some s" and "content e (lang s) (level s) = Inr c"
  shows "quiz_cmd e uid ts =
     (if quiz c = [] then Inr NoQuizDefined else Inr (QuizMsg (quiz c ! 0) 0 (length (quiz c))),
      ts(uid \<mapsto> s\<lparr>quiz_idx := 0, score := 0\<rparr>))"
  using assms
  by (cases "quiz c") (simp_all add: quiz_cmd_def tutor_quiz_question_def py_index_def Let_def)

text \<open>Claim C5. For an active session over a catalogue entry c: when
  0 <= quiz_idx < len(quiz c) and the first argument parses to n, answer_cmd
  compares n - 1 with the stored answer of the current question, adds 1 to score
  exactly when they are equal, adds 1 to quiz_idx in both cases, and replies with
  the verdict and the next question or, after the last one, score/len(quiz c);
  and after quiz_cmd on a non-empty quiz, answering every question with the number
  of its correct option ends with score = quiz_idx = len(quiz c).\<close>

theorem answer_cmd_scores_quiz:
  assumes "ts uid = Some s" and "content e (lang s) (level s) = Inr c"
  shows "(\<forall>a rest n. 0 \<le> quiz_idx s \<and> quiz_idx s < int (length (quiz c)) \<and> py_int e a = Some n \<longrightarrow>
            answer_cmd e uid (a # rest) ts =
              (Inr (AnswerMsg (answer_verdict (quiz c ! nat (quiz_idx s)) n)
                     (answer_followup (quiz c) (answered_session (quiz c ! nat (quiz_idx s)) n s))),
               ts(uid \<mapsto> answered_session (quiz c ! nat (quiz_idx s)) n s))) \<and>
         (\<forall>argss. quiz c \<noteq> [] \<and> list_all2 (names_correct_option e) argss (quiz c) \<longrightarrow>
            (\<exists>s'. snd (answer_all e uid argss (snd (quiz_cmd e uid ts))) uid = Some s' \<and>
                  score s' = int (length (quiz c)) \<and> quiz_idx s' = int (length (quiz c))))"
proof (intro conjI allI impI)
  fix a rest n
  assume "0 \<le> quiz_idx s \<and> quiz_idx s < int (length (quiz c)) \<and> py_int e a = Some n"
  then show "answer_cmd e uid (a # rest) ts =
              (Inr (AnswerMsg (answer_verdict (quiz c ! nat (quiz_idx s)) n)
                     (answer_followup (quiz c) (answered_session (quiz c ! nat (quiz_idx s)) n s))),
               ts(uid \<mapsto> answered_session (quiz c ! nat (quiz_idx s)) n s))"
    using answer_cmd_step[where ts=ts and uid=uid, OF assms] by blast
next
  fix argss
  assume h: "quiz c \<noteq> [] \<and> list_all2 (names_correct_option e) argss (quiz c)"
  let ?s0 = "s\<lparr>quiz_idx := 0, score := 0\<rparr>"
  let ?ts0 = "ts(uid \<mapsto> ?s0)"
  have start: "snd (quiz_cmd e uid ts) = ?ts0"
    by (simp add: quiz_cmd_result[where ts=ts and uid=uid, OF assms])
  have "\<exists>s'. snd (answer_all e uid argss ?ts0) uid = Some s' \<and>
        quiz_idx s' = int (length (quiz c)) \<and>
        score s' = score ?s0 + int (length (quiz c) - 0) \<and>
        lang s' = lang ?s0 \<and> level s' = level ?s0 \<and> module_idx s' = module_idx ?s0"
    by (rule answer_all_correct_from[where ts="?ts0" and s="?s0" and i=0])
       (use assms(2) h in simp_all)
  then show "\<exists>s'. snd (answer_all e uid argss (snd (quiz_cmd e uid ts))) uid = Some s' \<and>
                  score s' = int (length (quiz c)) \<and> quiz_idx s' = int (length (quiz c))"
    unfolding start by auto
qed

text \<open>Python level 0: the wrong answer 3 to the first question, and the three correct
  answers 2, 2, 1 after /quiz.\<close>

theorem answer_cmd_scores_quiz_witness:
  "[7 \<mapsto> sample_session] (7::user_id) = Some sample_session \<and>
   content sample_env (lang sample_session) (level sample_session) = Inr sample_content \<and>
   0 \<le> quiz_idx sample_session \<and> quiz_idx sample_session < int (length (quiz sample_content)) \<and>
   py_int sample_env ''3'' = Some 3 \<and>
   answer_cmd sample_env 7 [''3''] [7 \<mapsto> sample_session] =
     (Inr (AnswerMsg (Incorrect 2) (NextQuestion (sample_quiz ! 1) 1 3)),
      [7 \<mapsto> sample_session\<lparr>quiz_idx := 1\<rparr>]) \<and>
   quiz sample_content \<noteq> [] \<and>
   list_all2 (names_correct_option sample_env) [[''2''], [''2''], [''1'']] (quiz sample_content) \<and>
   map_option score (snd (answer_all sample_env 7 [[''2''], [''2''], [''1'']]
       (snd (quiz_cmd sample_env 7 [7 \<mapsto> sample_session]))) 7) = Some 3"
proof -
  have h1: "[7 \<mapsto> sample_session] (7::int) = Some sample_session" by simp
  have h3: "0 \<le> quiz_idx sample_session \<and> quiz_idx sample_session < int (length (quiz sample_content)) \<and>
      py_int sample_env ''3'' = Some 3"
    by (simp add: sample_session_def sample_content_def sample_quiz_def sample_env_def
          decimal_int_def digit_value_def)
  have h4: "quiz sample_content \<noteq> [] \<and>
      list_all2 (names_correct_option sample_env) [[''2''], [''2''], [''1'']] (quiz sample_content)"
    by (simp add: sample_content_def sample_quiz_def names_correct_option_def sample_env_def
          decimal_int_def digit_value_def)
  note inst = answer_cmd_scores_quiz[where ts="[7 \<mapsto> sample_session]" and uid=7, OF h1 sample_content_lookup]
  have step: "answer_cmd sample_env 7 [''3''] [7 \<mapsto> sample_session] =
     (Inr (AnswerMsg (answer_verdict (quiz sample_content ! nat (quiz_idx sample_session)) 3)
            (answer_followup (quiz sample_content)
               (answered_session (quiz sample_content ! nat (quiz_idx sample_session)) 3 sample_session))),
      [7 \<mapsto> answered_session (quiz sample_content ! nat (quiz_idx sample_session)) 3 sample_session])"
    using conjunct1[OF inst, rule_format, OF h3, of "[]"] by (simp only: fun_upd_upd)
  from conjunct2[OF inst, rule_format, OF h4] obtain s' where
    "snd (answer_all sample_env 7 [[''2''], [''2''], [''1'']]
       (snd (quiz_cmd sample_env 7 [7 \<mapsto> sample_session]))) 7 = Some s'"
    and "score s' = int (length (quiz sample_content))"
    by blast
  then have fin: "map_option score (snd (answer_all sample_env 7 [[''2''], [''2''], [''1'']]
       (snd (quiz_cmd sample_env 7 [7 \<mapsto> sample_session]))) 7) = Some 3"
    by (simp add: sample_content_def sample_quiz_def)
  have ev: "answer_verdict (quiz sample_content ! nat (quiz_idx sample_session)) 3 = Incorrect 2"
    "answered_session (quiz sample_content ! nat (quiz_idx sample_session)) 3 sample_session =
       sample_session\<lparr>quiz_idx := 1\<rparr>"
    "answer_followup (quiz sample_content) (sample_session\<lparr>quiz_idx := 1\<rparr>) =
       NextQuestion (sample_quiz ! 1) 1 3"
    by (simp_all add: answer_verdict_def answered_session_def answer_followup_def
          sample_content_def sample_quiz_def sample_session_def)
  show ?thesis
    using h1 sample_content_lookup h3 h4 fin step unfolding ev by simp
qed

lemma learn_cmd_state:
  "snd (learn_cmd e v args ts) = ts \<or>
   (\<exists>lg lv c. content e lg lv = Inr c \<and> snd (learn_cmd e v args ts) = tutor_set v lg lv ts)"
proof (cases "length args < 2")
  case True
  then show ?thesis by (simp add: learn_cmd_def)
next
  case False
  show ?thesis
  proof (cases "py_int e (args ! 1)")
    case None
    then show ?thesis using False by (simp add: learn_cmd_def)
  next
    case (Some lv)
    show ?thesis
    proof (cases "content e (py_lower e (args ! 0)) lv")
      case (Inl err)
      then show ?thesis using False Some
        by (auto simp: learn_cmd_def content_def Let_def split: option.splits)
    next
      case (Inr c)
      then have "snd (learn_cmd e v args ts) = tutor_set v (py_lower e (args ! 0)) lv ts"
        using False Some by (auto simp: learn_cmd_def content_def Let_def split: option.splits)
      with Inr show ?thesis by blast
    qed
  qed
qed

lemma next_cmd_state:
  "snd (next_cmd e v ts) = ts \<or>
   (\<exists>s c. ts v = Some s \<and> content e (lang s) (level s) = Inr c \<and>
      module_idx s < int (length (modules c)) \<and>
      snd (next_cmd e v ts) = ts(v \<mapsto> s\<lparr>module_idx := module_idx s + 1\<rparr>))"
  by (auto simp: next_cmd_def tutor_current_module_def split: option.splits sum.splits)

lemma quiz_cmd_state:
  "snd (quiz_cmd e v ts) = ts \<or>
   (\<exists>s. ts v = Some s \<and> snd (quiz_cmd e v ts) = ts(v \<mapsto> s\<lparr>quiz_idx := 0, score := 0\<rparr>))"
  by (auto simp: quiz_cmd_def Let_def split: option.splits sum.splits prod.splits)

lemma answer_cmd_state:
  "snd (answer_cmd e v args ts) = ts \<or>
   (\<exists>s c qn n. ts v = Some s \<and> content e (lang s) (level s) = Inr c \<and>
      quiz_idx s < int (length (quiz c)) \<and>
      snd (answer_cmd e v args ts) = ts(v \<mapsto> answered_session qn n s))"
proof (cases "ts v")
  case None
  then show ?thesis by (simp add: answer_cmd_def)
next
  case (Some s)
  show ?thesis
  proof (cases "tutor_quiz_question e ts v")
    case (Inl err)
    then show ?thesis using Some by (simp add: answer_cmd_def split: list.splits option.splits)
  next
    case (Inr t)
    then obtain c where c: "content e (lang s) (level s) = Inr c"
      using Some by (auto simp: tutor_quiz_question_def split: sum.splits)
    show ?thesis
    proof (cases "quiz_idx s \<ge> int (length (quiz c))")
      case True
      then have "tutor_quiz_question e ts v = Inr (Some s, None, Some (quiz c))"
        using Some c by (simp add: tutor_quiz_question_def)
      then show ?thesis using Some by (simp add: answer_cmd_def split: list.splits option.splits)
    next
      case False
      then obtain qn where q: "tutor_quiz_question e ts v = Inr (Some s, Some qn, Some (quiz c))"
        using Some c Inr by (auto simp: tutor_quiz_question_def split: sum.splits)
      show ?thesis
      proof (cases args)
        case Nil
        then show ?thesis using Some by (simp add: answer_cmd_def)
      next
        case (Cons a rest)
        show ?thesis
        proof (cases "py_int e a")
          case None
          then show ?thesis using Some Cons by (simp add: answer_cmd_def)
        next
          case (Some n)
          have "snd (answer_cmd e v args ts) = ts(v \<mapsto> answered_session qn n s)"
            using \<open>ts v = Some s\<close> Cons Some q
            by (auto simp: answer_cmd_def Let_def answered_session_def split: sum.splits)
          then show ?thesis using \<open>ts v = Some s\<close> c False by auto
        qed
      qed
    qed
  qed
qed

lemma tutor_set_inv:
  "content e lg lv = Inr c \<Longrightarrow>
   session_inv e \<lparr>lang = lg, level = lv, module_idx = 0, quiz_idx = 0, score = 0\<rparr>"
  by (simp add: session_inv_def)

lemma session_invD:
  "session_inv e s \<Longrightarrow>
   \<exists>c. content e (lang s) (level s) = Inr c \<and>
       0 \<le> module_idx s \<and> module_idx s \<le> int (length (modules c)) \<and>
       0 \<le> quiz_idx s \<and> quiz_idx s \<le> int (length (quiz c)) \<and>
       0 \<le> score s \<and> score s \<le> quiz_idx s"
  by (auto simp: session_inv_def split: sum.splits)

lemma inv_update:
  assumes "\<forall>s. ts u = Some s \<longrightarrow> session_inv e s"
    and "ts' = ts(v \<mapsto> sn)" and "ts' u = Some s'" and "u = v \<Longrightarrow> session_inv e sn"
  shows "session_inv e s'"
  using assms by (cases "u = v") auto

lemma learn_cmd_inv:
  assumes "\<forall>s. ts u = Some s \<longrightarrow> session_inv e s" and "snd (learn_cmd e v args ts) u = Some s'"
  shows "session_inv e s'"
proof -
  from learn_cmd_state[of e v args ts] show ?thesis
  proof (elim disjE exE conjE)
    assume "snd (learn_cmd e v args ts) = ts"
    then show ?thesis using assms by simp
  next
    fix lg lv c
    assume c: "content e lg lv = Inr c" and st: "snd (learn_cmd e v args ts) = tutor_set v lg lv ts"
    show ?thesis
      by (rule inv_update[OF assms(1) st[unfolded tutor_set_def] assms(2)]) (rule tutor_set_inv[OF c])
  qed
qed

lemma next_cmd_inv:
  assumes "\<forall>s. ts u = Some s \<longrightarrow> session_inv e s" and "snd (next_cmd e v ts) u = Some s'"
  shows "session_inv e s'"
proof -
  from next_cmd_state[of e v ts] show ?thesis
  proof (elim disjE exE conjE)
    assume "snd (next_cmd e v ts) = ts"
    then show ?thesis using assms by simp
  next
    fix s c
    assume s: "ts v = Some s" and c: "content e (lang s) (level s) = Inr c"
      and lt: "module_idx s < int (length (modules c))"
      and st: "snd (next_cmd e v ts) = ts(v \<mapsto> s\<lparr>module_idx := module_idx s + 1\<rparr>)"
    show ?thesis
    proof (rule inv_update[OF assms(1) st assms(2)])
      assume "u = v"
      then have "session_inv e s" using assms(1) s by simp
      from session_invD[OF this] c lt show "session_inv e (s\<lparr>module_idx := module_idx s + 1\<rparr>)"
        by (simp add: session_inv_def)
    qed
  qed
qed

lemma quiz_cmd_inv:
  assumes "\<forall>s. ts u = Some s \<longrightarrow> session_inv e s" and "snd (quiz_cmd e v ts) u = Some s'"
  shows "session_inv e s'"
proof -
  from quiz_cmd_state[of e v ts] show ?thesis
  proof (elim disjE exE conjE)
    assume "snd (quiz_cmd e v ts) = ts"
    then show ?thesis using assms by simp
  next
    fix s
    assume s: "ts v = Some s"
      and st: "snd (quiz_cmd e v ts) = ts(v \<mapsto> s\<lparr>quiz_idx := 0, score := 0\<rparr>)"
    show ?thesis
    proof (rule inv_update[OF assms(1) st assms(2)])
      assume "u = v"
      then have "session_inv e s" using assms(1) s by simp
      from session_invD[OF this] show "session_inv e (s\<lparr>quiz_idx := 0, score := 0\<rparr>)"
        by (auto simp: session_inv_def)
    qed
  qed
qed

lemma answer_cmd_inv:
  assumes "\<forall>s. ts u = Some s \<longrightarrow> session_inv e s" and "snd (answer_cmd e v args ts) u = Some s'"
  shows "session_inv e s'"
proof -
  from answer_cmd_state[of e v args ts] show ?thesis
  proof (elim disjE exE conjE)
    assume "snd (answer_cmd e v args ts) = ts"
    then show ?thesis using assms by simp
  next
    fix s c qn n
    assume s: "ts v = Some s" and c: "content e (lang s) (level s) = Inr c"
      and lt: "quiz_idx s < int (length (quiz c))"
      and st: "snd (answer_cmd e v args ts) = ts(v \<mapsto> answered_session qn n s)"
    show ?thesis
    proof (rule inv_update[OF assms(1) st assms(2)])
      assume "u = v"
      then have "session_inv e s" using assms(1) s by simp
      from session_invD[OF this] c lt show "session_inv e (answered_session qn n s)"
        by (simp add: session_inv_def answered_session_def)
    qed
  qed
qed

lemma dispatch_inv:
  assumes "\<forall>s. ts u = Some s \<longrightarrow> session_inv e s" and "snd (dispatch e c ts) u = Some s'"
  shows "session_inv e s'"
proof (cases c)
  case (Learn v args)
  then show ?thesis using assms learn_cmd_inv[of ts u e v args s'] by simp
next
  case (Next v)
  then show ?thesis using assms next_cmd_inv[of ts u e v s'] by simp
next
  case (Quiz v)
  then show ?thesis using assms quiz_cmd_inv[of ts u e v s'] by simp
next
  case (Answer v args)
  then show ?thesis using assms answer_cmd_inv[of ts u e v args s'] by simp
next
  case (Progress v)
  then show ?thesis using assms
    by (auto simp: progress_cmd_def Let_def split: option.splits sum.splits)
next
  case (Reset v)
  then show ?thesis using assms by (auto simp: reset_cmd_def split: if_splits)
qed

lemma run_commands_inv:
  "\<forall>s. ts u = Some s \<longrightarrow> session_inv e s \<Longrightarrow> run_commands e cs ts u = Some s' \<Longrightarrow> session_inv e s'"
proof (induction cs arbitrary: ts)
  case Nil
  then show ?case by simp
next
  case (Cons c cs)
  have "\<forall>s. snd (dispatch e c ts) u = Some s \<longrightarrow> session_inv e s"
    using dispatch_inv[of ts u e c] Cons.prems(1) by blast
  then show ?case using Cons.IH Cons.prems(2) by simp
qed

lemma learn_cmd_begins:
  assumes "learn_cmd e u args ts0 = (Inr (TutorConfigured lg lv), ts1)"
  shows "ts1 u = Some \<lparr>lang = lg, level = lv, module_idx = 0, quiz_idx = 0, score = 0\<rparr> \<and>
         session_inv e \<lparr>lang = lg, level = lv, module_idx = 0, quiz_idx = 0, score = 0\<rparr>"
  using assms
  by (auto simp: learn_cmd_def tutor_set_def Let_def session_inv_def content_def
      split: if_splits option.splits)

text \<open>Claim C6. For every user with an active session that satisfies the session
  invariants: when the quiz of the level is empty, quiz_cmd replies that no quiz is
  defined and leaves tutor_state, and so quiz_idx and score, as they were; when the
  quiz is not empty, it sets quiz_idx and score to 0 and replies with the first
  question. In particular, for every session reached from a successful learn_cmd
  by any sequence of operations, a quiz_cmd over an empty quiz changes nothing.\<close>

theorem quiz_cmd_empty_quiz:
  "(ts uid = Some s \<and> session_inv e s \<and> content e (lang s) (level s) = Inr c \<longrightarrow>
      (quiz c = [] \<longrightarrow> quiz_cmd e uid ts = (Inr NoQuizDefined, ts)) \<and>
      (quiz c \<noteq> [] \<longrightarrow>
         quiz_cmd e uid ts =
           (Inr (QuizMsg (quiz c ! 0) 0 (length (quiz c))),
            ts(uid \<mapsto> s\<lparr>quiz_idx := 0, score := 0\<rparr>)))) \<and>
   (learn_cmd e uid args ts0 = (Inr (TutorConfigured lg lv), ts1) \<and>
    run_commands e cs ts1 uid = Some s \<and> content e (lang s) (level s) = Inr c \<and> quiz c = [] \<longrightarrow>
      quiz_cmd e uid (run_commands e cs ts1) = (Inr NoQuizDefined, run_commands e cs ts1))"
proof -
  have unchanged: "quiz_cmd e uid t = (Inr NoQuizDefined, t)"
    if s: "t uid = Some s" and inv: "session_inv e s"
      and c: "content e (lang s) (level s) = Inr c" and empty: "quiz c = []" for t
  proof -
    have zero: "quiz_idx s = 0 \<and> score s = 0"
      using inv c empty by (simp add: session_inv_def)
    then have "s\<lparr>quiz_idx := 0, score := 0\<rparr> = s" by (cases s) auto
    then have "t(uid \<mapsto> s\<lparr>quiz_idx := 0, score := 0\<rparr>) = t"
      using s by (simp add: fun_upd_idem)
    then show ?thesis
      using quiz_cmd_result[where ts=t and uid=uid, OF s c] empty by simp
  qed
  have part1: "(quiz c = [] \<longrightarrow> quiz_cmd e uid ts = (Inr NoQuizDefined, ts)) \<and>
      (quiz c \<noteq> [] \<longrightarrow>
         quiz_cmd e uid ts =
           (Inr (QuizMsg (quiz c ! 0) 0 (length (quiz c))),
            ts(uid \<mapsto> s\<lparr>quiz_idx := 0, score := 0\<rparr>)))"
    if "ts uid = Some s" and "session_inv e s" and "content e (lang s) (level s) = Inr c"
  proof (cases "quiz c = []")
    case True
    then show ?thesis using unchanged[of ts, OF that True] by simp
  next
    case False
    then show ?thesis
      using quiz_cmd_result[where ts=ts and uid=uid, OF that(1) that(3)] by simp
  qed
  have part2: "quiz_cmd e uid (run_commands e cs ts1) = (Inr NoQuizDefined, run_commands e cs ts1)"
    if start: "learn_cmd e uid args ts0 = (Inr (TutorConfigured lg lv), ts1)"
      and run: "run_commands e cs ts1 uid = Some s"
      and c: "content e (lang s) (level s) = Inr c" and empty: "quiz c = []"
  proof -
    from learn_cmd_begins[OF start] have "\<forall>s. ts1 uid = Some s \<longrightarrow> session_inv e s" by auto
    then have "session_inv e s" using run by (rule run_commands_inv[of ts1 uid e cs])
    then show ?thesis using unchanged[of "run_commands e cs ts1", OF run _ c empty] by simp
  qed
  show ?thesis using part1 part2 by blast
qed

text \<open>linux_redhat level 2, whose quiz is empty: a session after /learn and one /next.\<close>

theorem quiz_cmd_empty_quiz_witness:
  "[7 \<mapsto> linux_session] (7::user_id) = Some linux_session \<and>
   session_inv sample_env linux_session \<and>
   content sample_env (lang linux_session) (level linux_session) = Inr linux_content \<and>
   quiz linux_content = [] \<and>
   quiz_cmd sample_env 7 [7 \<mapsto> linux_session] = (Inr NoQuizDefined, [7 \<mapsto> linux_session]) \<and>
   learn_cmd sample_env 7 [''linux_redhat'', ''2''] Map.empty =
     (Inr (TutorConfigured ''linux_redhat'' 2), [7 \<mapsto> fresh_linux_session]) \<and>
   run_commands sample_env [Next 7] [7 \<mapsto> fresh_linux_session] 7 = Some linux_session \<and>
   quiz_cmd sample_env 7 (run_commands sample_env [Next 7] [7 \<mapsto> fresh_linux_session]) =
     (Inr NoQuizDefined, run_commands sample_env [Next 7] [7 \<mapsto> fresh_linux_session])"
proof -
  have h1: "[7 \<mapsto> linux_session] (7::user_id) = Some linux_session" by simp
  have h2: "content sample_env (lang linux_session) (level linux_session) = Inr linux_content"
    by (simp add: linux_session_def linux_content_lookup)
  have h3: "quiz linux_content = []" by (simp add: linux_content_def)
  have h4: "session_inv sample_env linux_session"
    using h2 by (simp add: session_inv_def) (simp add: linux_session_def linux_content_def)
  have h5: "learn_cmd sample_env 7 [''linux_redhat'', ''2''] Map.empty =
     (Inr (TutorConfigured ''linux_redhat'' 2), [7 \<mapsto> fresh_linux_session])"
    by (simp add: learn_cmd_def tutor_set_def sample_env_def sample_catalog_def decimal_int_def
          digit_value_def Let_def fresh_linux_session_def)
  have h6: "run_commands sample_env [Next 7] [7 \<mapsto> fresh_linux_session] 7 = Some linux_session"
    by (simp add: next_cmd_def tutor_current_module_def content_def py_index_def sample_env_def
          sample_catalog_def fresh_linux_session_def linux_session_def)
  note inst = quiz_cmd_empty_quiz[of "[7 \<mapsto> linux_session]" 7 linux_session sample_env linux_content
      "[''linux_redhat'', ''2'']" Map.empty "''linux_redhat''" 2 "[7 \<mapsto> fresh_linux_session]" "[Next 7]"]
  from conjunct1[OF inst] h1 h2 h3 h4
  have c1: "quiz_cmd sample_env 7 [7 \<mapsto> linux_session] = (Inr NoQuizDefined, [7 \<mapsto> linux_session])"
    by blast
  from conjunct2[OF inst] h2 h3 h5 h6
  have c2: "quiz_cmd sample_env 7 (run_commands sample_env [Next 7] [7 \<mapsto> fresh_linux_session]) =
     (Inr NoQuizDefined, run_commands sample_env [Next 7] [7 \<mapsto> fresh_linux_session])"
    by blast
  show ?thesis using h1 h2 h3 h4 h5 h6 c1 c2 by blast
qed

text \<open>Claim C9. Each of the six operations, sent by any user, keeps the invariants of
  the session of a user u: if u's session satisfies them before, u's session (if
  any) satisfies them after. And every session reached from a successful learn_cmd
  by any sequence of operations satisfies them.\<close>

theorem tutor_operations_preserve_invariants:
  "((\<forall>s. ts u = Some s \<longrightarrow> session_inv e s) \<longrightarrow>
      (\<forall>s'. snd (dispatch e c ts) u = Some s' \<longrightarrow> session_inv e s')) \<and>
   (learn_cmd e u args ts0 = (Inr (TutorConfigured lg lv), ts1) \<longrightarrow>
      (\<forall>cs s'. run_commands e cs ts1 u = Some s' \<longrightarrow> session_inv e s'))"
proof (intro conjI impI allI)
  fix s'
  assume "\<forall>s. ts u = Some s \<longrightarrow> session_inv e s" and "snd (dispatch e c ts) u = Some s'"
  then show "session_inv e s'" by (rule dispatch_inv[of ts u e c])
next
  fix cs s'
  assume start: "learn_cmd e u args ts0 = (Inr (TutorConfigured lg lv), ts1)"
    and run: "run_commands e cs ts1 u = Some s'"
  from learn_cmd_begins[OF start] have "\<forall>s. ts1 u = Some s \<longrightarrow> session_inv e s" by auto
  then show "session_inv e s'" using run by (rule run_commands_inv[of ts1 u e cs])
qed

text \<open>Python level 0: after /learn, then /next, /quiz and one correct answer.\<close>

theorem tutor_operations_preserve_invariants_witness:
  "session_inv sample_env sample_session \<and>
   snd (dispatch sample_env (Next 7) [7 \<mapsto> sample_session]) 7 = Some (sample_session\<lparr>module_idx := 1\<rparr>) \<and>
   session_inv sample_env (sample_session\<lparr>module_idx := 1\<rparr>) \<and>
   learn_cmd sample_env 7 [''python'', ''0''] Map.empty =
     (Inr (TutorConfigured ''python'' 0), [7 \<mapsto> sample_session]) \<and>
   run_commands sample_env [Next 7, Quiz 7, Answer 7 [''2'']] [7 \<mapsto> sample_session] 7 =
     Some mid_quiz_session \<and>
   session_inv sample_env mid_quiz_session"
proof -
  have h1: "\<forall>s. [7 \<mapsto> sample_session] (7::user_id) = Some s \<longrightarrow> session_inv sample_env s"
    using sample_content_lookup
    by (simp add: session_inv_def) (simp add: sample_session_def sample_content_def)
  have h2: "snd (dispatch sample_env (Next 7) [7 \<mapsto> sample_session]) 7 =
      Some (sample_session\<lparr>module_idx := 1\<rparr>)"
    by (simp only: sample_next) simp
  have h3: "run_commands sample_env [Next 7, Quiz 7, Answer 7 [''2'']] [7 \<mapsto> sample_session] 7 =
     Some mid_quiz_session"
    by (simp only: sample_run) simp
  note inst = tutor_operations_preserve_invariants[of "[7 \<mapsto> sample_session]" 7 sample_env "Next 7"
      "[''python'', ''0'']" Map.empty "''python''" 0 "[7 \<mapsto> sample_session]"]
  from conjunct1[OF inst] h1 h2
  have c1: "session_inv sample_env (sample_session\<lparr>module_idx := 1\<rparr>)" by blast
  from conjunct2[OF inst] sample_learn h3
  have c2: "session_inv sample_env mid_quiz_session" by blast
  have "session_inv sample_env sample_session" using h1 by simp
  then show ?thesis using h2 h3 c1 c2 sample_learn by blast
qed

text \<open>Claim C10, amended. Across every operation other than begin and reset, module_idx
  does not decrease; quiz_idx does not decrease across advance, submitAnswer and
  progress, and startQuiz by the user sets it to 0.\<close>

theorem cursors_monotone_except_quiz_restart:
  assumes "ts u = Some s" and "snd (dispatch e c ts) u = Some s'" and "\<not> is_begin_or_reset c"
  shows "module_idx s \<le> module_idx s' \<and>
         (\<not> is_start_quiz c \<longrightarrow> quiz_idx s \<le> quiz_idx s') \<and>
         (c = Quiz u \<longrightarrow> quiz_idx s' = 0)"
  using assms
  by (cases c)
     (auto simp: next_cmd_def tutor_current_module_def quiz_cmd_def tutor_quiz_question_def
        answer_cmd_def progress_cmd_def Let_def
      split: if_splits option.splits sum.splits prod.splits list.splits)

text \<open>Python level 0, /next from a fresh session.\<close>

theorem cursors_monotone_except_quiz_restart_witness:
  "[7 \<mapsto> sample_session] (7::user_id) = Some sample_session \<and>
   snd (dispatch sample_env (Next 7) [7 \<mapsto> sample_session]) 7 = Some (sample_session\<lparr>module_idx := 1\<rparr>) \<and>
   \<not> is_begin_or_reset (Next 7) \<and> \<not> is_start_quiz (Next 7) \<and>
   module_idx sample_session \<le> module_idx (sample_session\<lparr>module_idx := 1\<rparr>) \<and>
   quiz_idx sample_session \<le> quiz_idx (sample_session\<lparr>module_idx := 1\<rparr>)"
proof -
  have h1: "[7 \<mapsto> sample_session] (7::user_id) = Some sample_session" by simp
  have h2: "snd (dispatch sample_env (Next 7) [7 \<mapsto> sample_session]) 7 =
      Some (sample_session\<lparr>module_idx := 1\<rparr>)"
    by (simp only: sample_next) simp
  have h3: "\<not> is_begin_or_reset (Next 7)" by simp
  from cursors_monotone_except_quiz_restart[of "[7 \<mapsto> sample_session]" 7 sample_session
      sample_env "Next 7" "sample_session\<lparr>module_idx := 1\<rparr>", OF h1 h2 h3]
  show ?thesis using h1 h2 by simp
qed

text \<open>Claim C10 as stated fails: after one answered question quiz_idx is 1, and /quiz,
  which is neither begin nor reset, sets it to 0.\<close>

theorem cursors_monotone_counterexample:
  "run_commands sample_env [Learn 7 [''python'', ''0''], Next 7, Quiz 7, Answer 7 [''2'']] Map.empty 7 =
     Some mid_quiz_session \<and>
   \<not> is_begin_or_reset (Quiz 7) \<and>
   snd (dispatch sample_env (Quiz 7) [7 \<mapsto> mid_quiz_session]) 7 =
     Some (mid_quiz_session\<lparr>quiz_idx := 0, score := 0\<rparr>) \<and>
   quiz_idx (mid_quiz_session\<lparr>quiz_idx := 0, score := 0\<rparr>) < quiz_idx mid_quiz_session"
proof -
  have "run_commands sample_env [Learn 7 [''python'', ''0''], Next 7, Quiz 7, Answer 7 [''2'']] Map.empty =
      run_commands sample_env [Next 7, Quiz 7, Answer 7 [''2'']] [7 \<mapsto> sample_session]"
    by (simp add: sample_learn)
  then have "run_commands sample_env [Learn 7 [''python'', ''0''], Next 7, Quiz 7, Answer 7 [''2'']] Map.empty 7 =
     Some mid_quiz_session"
    by (simp only: sample_run) simp
  moreover have "snd (dispatch sample_env (Quiz 7) [7 \<mapsto> mid_quiz_session]) 7 =
     Some (mid_quiz_session\<lparr>quiz_idx := 0, score := 0\<rparr>)"
    by (simp only: mid_quiz_restart) simp
  ultimately show ?thesis by (simp add: mid_quiz_session_def)
qed

section \<open>Properties: media download, OCR cache and photo handler\<close>

lemma mb_oversize: "mb 268435457 = 256"
  by (simp add: mb_def round_half_even_def Let_def)

lemma mb_small: "mb 2048 = 0"
  by (simp add: mb_def round_half_even_def Let_def)

lemma retry_env_attempts: "attempts_made retry_env (nat (DOWNLOAD_MAX_RETRIES default_config)) 1 = 2"
  by (simp add: retry_env_def default_config_def numeral_3_eq_3)

lemma emit_simps [simp]:
  "trace (emit ev st) = trace st @ [ev]" "files (emit ev st) = files st"
  "next_tmp (emit ev st) = next_tmp st" "ocr_cache (emit ev st) = ocr_cache st"
  "rate_limit (emit ev st) = rate_limit st" "user_history (emit ev st) = user_history st"
  by (simp_all add: emit_def)

lemma attempt_loop_trace:
  "trace (snd (attempt_loop env p n k st)) = trace st @ map Transfer [k..<k + attempts_made env n k]"
proof (induction n arbitrary: k st)
  case 0
  then show ?case by simp
next
  case (Suc n)
  have upt: "\<And>m. [k..<Suc (k + m)] = k # [Suc k..<Suc (k + m)]"
    by (rule upt_conv_Cons) simp
  show ?case
  proof (cases "attempt_result env k")
    case (Downloaded b)
    then show ?thesis by (simp add: Let_def)
  next
    case (RetryAfter t)
    then show ?thesis using Suc.IH[of "Suc k" "emit (Transfer k) st"]
      by (simp add: Let_def upt del: upt_Suc)
  next
    case NetworkError
    then show ?thesis using Suc.IH[of "Suc k" "emit (Transfer k) st"]
      by (simp add: Let_def upt del: upt_Suc)
  next
    case (Failed e)
    then show ?thesis by (simp add: Let_def)
  qed
qed

lemma download_rejects_oversize:
  assumes "get_file_result env = Inr fsz" and "mb (declared_size fsz) > max_mb"
  shows "download_with_retry cfg env max_mb st = (Inr None, emit GetFile st)"
  using assms by (simp add: download_with_retry_def Let_def)

lemma download_accepts:
  assumes "get_file_result env = Inr fsz" and "\<not> mb (declared_size fsz) > max_mb"
  shows "download_with_retry cfg env max_mb st =
     attempt_loop env (next_tmp st) (nat (DOWNLOAD_MAX_RETRIES cfg)) 1
       (emit (CreateTemp (next_tmp st))
          ((emit GetFile st)\<lparr>files := (files st)(next_tmp st \<mapsto> []), next_tmp := Suc (next_tmp st)\<rparr>))"
  using assms by (simp add: download_with_retry_def Let_def)

lemma attempts_made_pos: "0 < n \<Longrightarrow> 0 < attempts_made env n a"
  by (cases n) (auto split: download_result.splits)

lemma attempts_made_le: "attempts_made env n a \<le> n"
  by (induction n arbitrary: a) (auto split: download_result.splits)

lemma attempts_made_continues:
  "attempt_result env k = RetryAfter t \<Longrightarrow> a \<le> k \<Longrightarrow> k < a + attempts_made env n a \<Longrightarrow>
   Suc k < a + n \<Longrightarrow> Suc k < a + attempts_made env n a"
proof (induction n arbitrary: a)
  case 0
  then show ?case by simp
next
  case (Suc n)
  show ?case
  proof (cases "k = a")
    case True
    then have "attempts_made env (Suc n) a = Suc (attempts_made env n (Suc a))"
      using Suc.prems(1) by simp
    moreover have "0 < attempts_made env n (Suc a)"
      using Suc.prems(4) True by (intro attempts_made_pos) simp
    ultimately show ?thesis using True by simp
  next
    case False
    then have gt: "Suc a \<le> k" using Suc.prems(2) by simp
    have "1 < attempts_made env (Suc n) a" using Suc.prems(3) gt by simp
    then have am: "attempts_made env (Suc n) a = Suc (attempts_made env n (Suc a))"
      by (auto split: download_result.splits)
    have "Suc k < Suc a + attempts_made env n (Suc a)"
      by (rule Suc.IH[OF Suc.prems(1) gt]) (use Suc.prems(3,4) am in simp_all)
    then show ?thesis using am by simp
  qed
qed

lemma attempt_loop_no_sleep:
  "filter is_sleep (trace (snd (attempt_loop env p n k st))) = filter is_sleep (trace st)"
  by (simp add: attempt_loop_trace filter_map comp_def)

text \<open>Claim C8, amended. If the declared size in MB, rounded to two decimals by _mb,
  exceeds the cap, _download_with_retry returns None having done nothing but
  get_file: no temporary file, no transfer attempt. So it returns a path only when
  the declared size, so rounded, is at most the cap.\<close>

theorem oversize_rejected_before_transfer:
  "(get_file_result env = Inr fsz \<and> mb (declared_size fsz) > max_mb \<longrightarrow>
      download_with_retry cfg env max_mb st = (Inr None, emit GetFile st)) \<and>
   (get_file_result env = Inr fsz \<and> fst (download_with_retry cfg env max_mb st) = Inr (Some p) \<longrightarrow>
      mb (declared_size fsz) \<le> max_mb)"
proof (intro conjI impI)
  assume "get_file_result env = Inr fsz \<and> mb (declared_size fsz) > max_mb"
  then show "download_with_retry cfg env max_mb st = (Inr None, emit GetFile st)"
    using download_rejects_oversize by blast
next
  assume h: "get_file_result env = Inr fsz \<and> fst (download_with_retry cfg env max_mb st) = Inr (Some p)"
  show "mb (declared_size fsz) \<le> max_mb"
  proof (rule ccontr)
    assume "\<not> mb (declared_size fsz) \<le> max_mb"
    then have "mb (declared_size fsz) > max_mb" by simp
    with h have "download_with_retry cfg env max_mb st = (Inr None, emit GetFile st)"
      using download_rejects_oversize by blast
    with h show False by simp
  qed
qed

text \<open>A file of 256 MB and one byte against a cap of 255 MB is rejected; a file of 2048
  bytes is downloaded.\<close>

theorem oversize_rejected_before_transfer_witness:
  "get_file_result oversize_env = Inr (Some 268435457) \<and>
   mb (declared_size (Some 268435457)) > 255 \<and>
   download_with_retry default_config oversize_env 255 initial_state = (Inr None, emit GetFile initial_state) \<and>
   files (emit GetFile initial_state) = Map.empty \<and>
   trace (emit GetFile initial_state) = [GetFile] \<and>
   fst (download_with_retry default_config retry_env 256 initial_state) = Inr (Some 0) \<and>
   mb (declared_size (Some 2048)) \<le> 256"
proof -
  have h1: "get_file_result oversize_env = Inr (Some 268435457) \<and> mb (declared_size (Some 268435457)) > 255"
    by (simp add: oversize_env_def declared_size_def mb_oversize)
  have h2: "get_file_result retry_env = Inr (Some 2048) \<and>
      fst (download_with_retry default_config retry_env 256 initial_state) = Inr (Some 0)"
    by (simp add: retry_env_def download_with_retry_def declared_size_def mb_small Let_def
          default_config_def initial_state_def numeral_3_eq_3)
  from oversize_rejected_before_transfer[of oversize_env "Some 268435457" 255 default_config initial_state 0] h1
  have c1: "download_with_retry default_config oversize_env 255 initial_state = (Inr None, emit GetFile initial_state)"
    by blast
  from oversize_rejected_before_transfer[of retry_env "Some 2048" 256 default_config initial_state 0] h2
  have c2: "mb (declared_size (Some 2048)) \<le> 256"
    by blast
  show ?thesis using h1 h2 c1 c2 by (simp add: initial_state_def)
qed

text \<open>Claim C8 as stated fails: 268435457 bytes is more than the cap of 256 MB, rounds
  to 256.0, passes the check and is downloaded.\<close>

theorem oversize_counterexample:
  "real_of_int 268435457 > MAX_PHOTO_SIZE_MB default_config * (1024 * 1024) \<and>
   get_file_result oversize_env = Inr (Some 268435457) \<and>
   fst (download_with_retry default_config oversize_env (MAX_PHOTO_SIZE_MB default_config) initial_state) =
     Inr (Some 0) \<and>
   trace (snd (download_with_retry default_config oversize_env (MAX_PHOTO_SIZE_MB default_config) initial_state)) =
     [GetFile, CreateTemp 0, Transfer 1]"
  by (simp add: oversize_env_def download_with_retry_def declared_size_def mb_oversize Let_def
        default_config_def initial_state_def numeral_3_eq_3)

text \<open>Claim C4, amended. When the declared size passes the check, the effects of
  _download_with_retry are get_file, the creation of the temporary file and then
  the transfer attempts 1, 2, ... one right after the other, with no wait
  between them; and an attempt k that fails with RetryAfter while the retry budget
  is not used up is followed by attempt k + 1.\<close>

theorem retry_after_retried_immediately:
  assumes "get_file_result env = Inr fsz" and "\<not> mb (declared_size fsz) > max_mb"
  shows "trace (snd (download_with_retry cfg env max_mb st)) =
           trace st @ [GetFile, CreateTemp (next_tmp st)] @
           map Transfer [1..<Suc (attempts_made env (nat (DOWNLOAD_MAX_RETRIES cfg)) 1)] \<and>
         (\<forall>k t. attempt_result env k = RetryAfter t \<and> 1 \<le> k \<and>
                k \<le> attempts_made env (nat (DOWNLOAD_MAX_RETRIES cfg)) 1 \<and>
                int k < DOWNLOAD_MAX_RETRIES cfg \<longrightarrow>
                Suc k \<le> attempts_made env (nat (DOWNLOAD_MAX_RETRIES cfg)) 1)"
proof (intro conjI allI impI)
  show "trace (snd (download_with_retry cfg env max_mb st)) =
           trace st @ [GetFile, CreateTemp (next_tmp st)] @
           map Transfer [1..<Suc (attempts_made env (nat (DOWNLOAD_MAX_RETRIES cfg)) 1)]"
    by (simp add: download_accepts[OF assms] attempt_loop_trace)
next
  fix k t
  assume h: "attempt_result env k = RetryAfter t \<and> 1 \<le> k \<and>
                k \<le> attempts_made env (nat (DOWNLOAD_MAX_RETRIES cfg)) 1 \<and>
                int k < DOWNLOAD_MAX_RETRIES cfg"
  then have "Suc k < 1 + attempts_made env (nat (DOWNLOAD_MAX_RETRIES cfg)) 1"
    by (intro attempts_made_continues[where t=t]) auto
  then show "Suc k \<le> attempts_made env (nat (DOWNLOAD_MAX_RETRIES cfg)) 1" by simp
qed

text \<open>Attempt 1 answered with RetryAfter(5), attempt 2 succeeding: two transfers, back
  to back.\<close>

theorem retry_after_retried_immediately_witness:
  "get_file_result retry_env = Inr (Some 2048) \<and>
   \<not> mb (declared_size (Some 2048)) > MAX_PHOTO_SIZE_MB default_config \<and>
   attempt_result retry_env 1 = RetryAfter 5 \<and>
   trace (snd (download_with_retry default_config retry_env (MAX_PHOTO_SIZE_MB default_config) initial_state)) =
     [GetFile, CreateTemp 0, Transfer 1, Transfer 2] \<and>
   Suc 1 \<le> attempts_made retry_env (nat (DOWNLOAD_MAX_RETRIES default_config)) 1"
proof -
  have h1: "get_file_result retry_env = Inr (Some 2048)" by (simp add: retry_env_def)
  have h2: "\<not> mb (declared_size (Some 2048)) > MAX_PHOTO_SIZE_MB default_config"
    by (simp add: declared_size_def mb_small default_config_def)
  have upt: "[1..<Suc 2] = [1, 2]" by (simp add: upt_rec)
  note inst = retry_after_retried_immediately[OF h1 h2, of default_config initial_state]
  have "trace (snd (download_with_retry default_config retry_env (MAX_PHOTO_SIZE_MB default_config) initial_state)) =
     trace initial_state @ [GetFile, CreateTemp (next_tmp initial_state)] @ map Transfer [1, 2]"
    using conjunct1[OF inst] unfolding retry_env_attempts upt .
  then have "trace (snd (download_with_retry default_config retry_env (MAX_PHOTO_SIZE_MB default_config) initial_state)) =
     [GetFile, CreateTemp 0, Transfer 1, Transfer 2]"
    by (simp add: initial_state_def)
  moreover have h3: "attempt_result retry_env 1 = RetryAfter 5 \<and> 1 \<le> (1::nat) \<and>
      1 \<le> attempts_made retry_env (nat (DOWNLOAD_MAX_RETRIES default_config)) 1 \<and>
      int 1 < DOWNLOAD_MAX_RETRIES default_config"
    unfolding retry_env_attempts by (simp add: retry_env_def default_config_def)
  moreover from conjunct2[OF inst] h3
  have "Suc 1 \<le> attempts_made retry_env (nat (DOWNLOAD_MAX_RETRIES default_config)) 1"
    by blast
  ultimately show ?thesis using h1 h2 by blast
qed

text \<open>Claim C4 as stated fails: after attempt 1 is answered with RetryAfter(5), attempt
  2 starts with no wait of any length in between.\<close>

theorem retry_after_wait_counterexample:
  "attempt_result retry_env 1 = RetryAfter 5 \<and>
   fst (download_with_retry default_config retry_env (MAX_PHOTO_SIZE_MB default_config) initial_state) = Inr (Some 0) \<and>
   trace (snd (download_with_retry default_config retry_env (MAX_PHOTO_SIZE_MB default_config) initial_state)) =
     [GetFile, CreateTemp 0, Transfer 1, Transfer 2] \<and>
   filter is_sleep
     (trace (snd (download_with_retry default_config retry_env (MAX_PHOTO_SIZE_MB default_config) initial_state))) = []"
  by (simp add: retry_env_def download_with_retry_def declared_size_def mb_small Let_def
        default_config_def initial_state_def numeral_3_eq_3)

lemma concat_read_chunks: "concat (read_chunks bs) = bs"
proof (induction bs rule: read_chunks.induct)
  case (1 bs)
  show ?case
  proof (cases "bs = []")
    case True
    then show ?thesis by (simp add: read_chunks.simps)
  next
    case False
    then have "concat (read_chunks bs) = take 8192 bs @ concat (read_chunks (drop 8192 bs))"
      by (subst read_chunks.simps) simp
    then show ?thesis using 1[OF False] by simp
  qed
qed

lemma hash_file_whole: "hash_file co data = sha256_hex co data"
  by (simp add: hash_file_def concat_read_chunks)

lemma get_or_compute_keeps:
  "ocr_cache st k = Some t \<Longrightarrow> ocr_cache (snd (get_or_compute co x st)) k = Some t"
  by (auto simp: get_or_compute_def Let_def split: option.splits)

lemma lookups_keeps:
  "ocr_cache st k = Some t \<Longrightarrow> ocr_cache (lookups co xs st) k = Some t"
  by (induction xs arbitrary: st) (simp_all add: get_or_compute_keeps)

lemma get_or_compute_hit:
  "ocr_cache st (sha256_hex co b) = Some t \<Longrightarrow> get_or_compute co b st = (t, st)"
  by (simp add: get_or_compute_def hash_file_whole)

lemma get_or_compute_first:
  "get_or_compute co b st = (t1, st1) \<Longrightarrow>
   ocr_cache st1 (sha256_hex co b) = Some t1 \<and>
   t1 = (case ocr_cache st (sha256_hex co b) of Some cached \<Rightarrow> cached
         | None \<Rightarrow> ocr_image_path co b) \<and>
   filter is_ocr_call (trace st1) =
     filter is_ocr_call (trace st) @
     (case ocr_cache st (sha256_hex co b) of Some cached \<Rightarrow> [] | None \<Rightarrow> [OcrCall b])"
  by (cases "ocr_cache st (sha256_hex co b)")
     (auto simp: get_or_compute_def hash_file_whole Let_def)

text \<open>Claim C3. Two cache lookups on the same bytes b, with any lookups of other
  payloads in between: both return the same text; the first stores the text under
  the SHA-256 of b and runs the OCR once if the hash was not cached before and not
  at all if it was; the second returns the cached text and changes nothing, so it
  does not run the OCR.\<close>

theorem get_or_compute_twice:
  "(case get_or_compute co b st of
      (t1, st1) \<Rightarrow>
        (case get_or_compute co b (lookups co others st1) of
           (t2, st2) \<Rightarrow>
             t1 = t2 \<and> st2 = lookups co others st1 \<and>
             ocr_cache st1 (sha256_hex co b) = Some t1 \<and>
             t1 = (case ocr_cache st (sha256_hex co b) of Some cached \<Rightarrow> cached
                   | None \<Rightarrow> ocr_image_path co b) \<and>
             filter is_ocr_call (trace st1) =
               filter is_ocr_call (trace st) @
               (case ocr_cache st (sha256_hex co b) of Some cached \<Rightarrow> [] | None \<Rightarrow> [OcrCall b])))"
proof -
  obtain t1 st1 where first: "get_or_compute co b st = (t1, st1)"
    by (cases "get_or_compute co b st")
  note f = get_or_compute_first[OF first]
  from f have "ocr_cache (lookups co others st1) (sha256_hex co b) = Some t1"
    by (intro lookups_keeps) simp
  then have second: "get_or_compute co b (lookups co others st1) = (t1, lookups co others st1)"
    by (rule get_or_compute_hit)
  show ?thesis using f by (simp add: first second)
qed

text \<open>Claim C7 fails on the code. With three retries and a network that fails at every
  attempt, handle_photo replies with the download failure and the temporary file 0
  created for the download is still on disk, nothing having removed it; the same
  when the first attempt fails with an exception the loop does not catch.\<close>

theorem handle_photo_leaves_temp_file:
  "fst (handle_photo default_config co (photo_of flaky_env) initial_state) = Inr (Some PhotoTooBigOrFailed) \<and>
   files (snd (handle_photo default_config co (photo_of flaky_env) initial_state)) 0 = Some [] \<and>
   trace (snd (handle_photo default_config co (photo_of flaky_env) initial_state)) =
     [GetFile, CreateTemp 0, Transfer 1, Transfer 2, Transfer 3] \<and>
   fst (handle_photo default_config co (photo_of denied_env) initial_state) = Inr (Some PhotoError) \<and>
   files (snd (handle_photo default_config co (photo_of denied_env) initial_state)) 0 = Some [] \<and>
   trace (snd (handle_photo default_config co (photo_of denied_env) initial_state)) =
     [GetFile, CreateTemp 0, Transfer 1]"
  by (simp add: handle_photo_def photo_of_def flaky_env_def denied_env_def rate_limited_def
        download_with_retry_def declared_size_def mb_small Let_def default_config_def
        initial_state_def numeral_3_eq_3)

end
